theory Spec2Isabelle
  imports Complex_Main
begin

section \<open>Numbers, vectors and the stage matrix\<close>

text \<open>
  The solver of \<^verbatim>\<open>rk.py\<close> works on numpy arrays of floats. The embedding is in exact
  arithmetic: a float is a \<^typ>\<open>real\<close>, a one-dimensional array a \<^typ>\<open>real list\<close>, the
  two-dimensional stage buffer \<^verbatim>\<open>K\<close> the list of its rows. Rounding and overflow are outside
  the embedding. What numpy does that a real number cannot is written out: an operand of the
  wrong shape (numpy raises, or broadcasts) ends the call with \<open>ShapeMismatch\<close>; the
  infinite value of \<^verbatim>\<open>0.0 ** negative\<close> and of a nonzero number divided by zero is the value
  \<open>PInf\<close>; the value of \<^verbatim>\<open>0.0 / 0.0\<close> is \<open>NaN\<close>. The scaled error norm and what is computed
  from it are such extended numbers, and every comparison with \<open>NaN\<close> is false, in the
  tests of \<^verbatim>\<open>step\<close> and inside Python's \<^verbatim>\<open>max\<close> and \<^verbatim>\<open>min\<close>. One thing is left out: with a
  negative \<^verbatim>\<open>order\<close> an infinite norm makes the step size itself infinite or nan; the
  embedding ends that call with \<open>NonFinite\<close>.
\<close>

datatype py_error = IndexError | ShapeMismatch | ZeroDivisionError | TypeError | NonFinite

datatype xreal = Fin real | PInf | NaN

text \<open>The comparisons \<^verbatim>\<open>x > a\<close> and \<^verbatim>\<open>x <= a\<close> of a float with a number: both are false of
  nan.\<close>

definition xgt :: "xreal \<Rightarrow> real \<Rightarrow> bool" where
  "xgt x a = (case x of Fin v \<Rightarrow> a < v | PInf \<Rightarrow> True | NaN \<Rightarrow> False)"


type_synonym vec = "real list"
type_synonym matrix = "real list list"
type_synonym rhs = "real \<Rightarrow> vec \<Rightarrow> vec"
type_synonym calls = "(real \<times> vec) list"

definition vadd :: "vec \<Rightarrow> vec \<Rightarrow> vec" where
  "vadd xs ys = map2 (+) xs ys"

definition vsub :: "vec \<Rightarrow> vec \<Rightarrow> vec" where
  "vsub xs ys = map2 (-) xs ys"

definition smul :: "real \<Rightarrow> vec \<Rightarrow> vec" where
  "smul c xs = map (\<lambda>v. c * v) xs"

definition smulr :: "vec \<Rightarrow> real \<Rightarrow> vec" where
  "smulr xs c = map (\<lambda>v. v * c) xs"

definition ncols :: "matrix \<Rightarrow> nat" where
  "ncols K = (case K of [] \<Rightarrow> 0 | r # _ \<Rightarrow> length r)"

text \<open>\<^verbatim>\<open>np.dot(R.T, a)\<close> for a block of rows \<open>R\<close> with \<open>n\<close> columns: component \<open>i\<close> is the sum
  of \<open>R[j][i] * a[j]\<close> over the rows \<open>j\<close>.\<close>

definition dotT :: "nat \<Rightarrow> matrix \<Rightarrow> vec \<Rightarrow> vec" where
  "dotT n R a = map (\<lambda>i. \<Sum>(r, c) \<leftarrow> zip R a. r ! i * c) [0..<n]"

section \<open>The stage evaluator\<close>

text \<open>
  The loop of \<^verbatim>\<open>rk_step\<close> over \<^verbatim>\<open>enumerate(zip(A, C))\<close>. The buffer \<open>K\<close> is updated in place,
  so it is passed through; the points at which the right-hand side is called are collected.
\<close>

fun rk_stages :: "rhs \<Rightarrow> real \<Rightarrow> vec \<Rightarrow> real \<Rightarrow> nat \<Rightarrow> (vec \<times> real) list \<Rightarrow> matrix \<Rightarrow> calls
    \<Rightarrow> py_error + (matrix \<times> calls)" where
  "rk_stages fn t y h s [] K cs = Inr (K, cs)"
| "rk_stages fn t y h s ((a, c) # acs) K cs =
     (if length a \<noteq> length (take (s + 1) K) then Inl ShapeMismatch
      else let dy = smulr (dotT (ncols K) (take (s + 1) K) a) h in
        if length y \<noteq> ncols K then Inl ShapeMismatch
        else let r = fn (t + c * h) (vadd y dy) in
          if length K \<le> s + 1 then Inl IndexError
          else if length r \<noteq> ncols K then Inl ShapeMismatch
          else rk_stages fn t y h (s + 1) acs (K[s + 1 := r]) (cs @ [(t + c * h, vadd y dy)]))"

definition rk_step :: "rhs \<Rightarrow> real \<Rightarrow> vec \<Rightarrow> vec \<Rightarrow> real \<Rightarrow> vec list \<Rightarrow> vec \<Rightarrow> vec \<Rightarrow> vec \<Rightarrow> matrix
    \<Rightarrow> py_error + (vec \<times> vec \<times> vec \<times> matrix \<times> calls)" where
  "rk_step fn t y f h A B C E K =
     (if K = [] then Inl IndexError
      else if length f \<noteq> ncols K then Inl ShapeMismatch
      else case rk_stages fn t y h 0 (zip A C) (K[0 := f]) [] of
        Inl e \<Rightarrow> Inl e
      | Inr (K1, cs) \<Rightarrow>
          if length B \<noteq> length (butlast K1) \<or> length y \<noteq> ncols K1 then Inl ShapeMismatch
          else let y_new = vadd y (smul h (dotT (ncols K1) (butlast K1) B));
                   f_new = fn (t + h) y_new in
            if length f_new \<noteq> ncols K1 then Inl ShapeMismatch
            else let K2 = K1[length K1 - 1 := f_new] in
              if length E \<noteq> length K2 then Inl ShapeMismatch
              else Inr (y_new, f_new, smulr (dotT (ncols K2) K2 E) h, K2,
                        cs @ [(t + h, y_new)]))"

text \<open>The shapes under which \<^verbatim>\<open>rk_step\<close> runs: the tableau invariant of the data model, a
  buffer of \<open>n_stages + 1\<close> rows of \<open>n\<close> columns, a right-hand side that maps \<open>n\<close>-vectors
  to \<open>n\<close>-vectors.\<close>

definition tableau_ok :: "vec list \<Rightarrow> vec \<Rightarrow> vec \<Rightarrow> vec \<Rightarrow> bool" where
  "tableau_ok A B C E \<longleftrightarrow>
     length B = length A + 1 \<and> length C = length A \<and> length E = length B + 1 \<and>
     (\<forall>s<length A. length (A ! s) = s + 1)"

definition rhs_ok :: "nat \<Rightarrow> rhs \<Rightarrow> bool" where
  "rhs_ok n fn \<longleftrightarrow> (\<forall>t v. length v = n \<longrightarrow> length (fn t v) = n)"

definition buffer_ok :: "nat \<Rightarrow> nat \<Rightarrow> matrix \<Rightarrow> bool" where
  "buffer_ok m n K \<longleftrightarrow> length K = m \<and> (\<forall>r\<in>set K. length r = n)"

section \<open>The adaptive stepper\<close>

definition SAFETY :: real where
  "SAFETY = 9 / 10"

definition MAX_FACTOR :: real where
  "MAX_FACTOR = 5"

definition MIN_FACTOR :: real where
  "MIN_FACTOR = 2 / 10"

text \<open>Modelled from the spec: the status enum of the lifecycle base class
  (\<^verbatim>\<open>solver.py\<close>, not among the sources), with the five statuses the spec lists.\<close>

datatype solver_status = Created | Started | Running | Finished | Failed

record ode_state =
  state_t :: real
  state_y :: vec
  state_f :: vec
  state_ym :: "vec option"

text \<open>The fields of a \<^verbatim>\<open>RungeKutta\<close> object that \<^verbatim>\<open>step\<close> reads or writes. \<open>max_step\<close> may be
  \<^verbatim>\<open>np.inf\<close> (its default); a scalar \<^verbatim>\<open>atol\<close> is its broadcast to \<open>n\<close> components.\<close>

record solver =
  fun_rhs :: rhs
  state :: ode_state
  status :: solver_status
  direction :: real
  t_crit :: real
  coef_C :: vec
  coef_A :: "vec list"
  coef_B :: vec
  coef_E :: vec
  coef_M :: "vec option"
  stage_K :: matrix
  order :: int
  max_step :: xreal
  rtol :: real
  atol :: vec
  step_size :: real

text \<open>\<^verbatim>\<open>error / scale\<close>, one component. numpy does not raise on a zero divisor (it warns):
  a nonzero number over zero is infinite, zero over zero is nan. The sign of an infinite
  quotient is not kept: the norm squares it.\<close>

definition np_divide :: "real \<Rightarrow> real \<Rightarrow> xreal" where
  "np_divide e s = (if s = 0 then (if e = 0 then NaN else PInf) else Fin (e / s))"

text \<open>Modelled from the spec: \<^verbatim>\<open>norm\<close> of \<^verbatim>\<open>common.py\<close> (not among the sources), "a
  root-mean-square reduction" of the scaled error vector. In floating point a nan component
  makes the sum of squares nan, an infinite component (and no nan) makes it infinite, and the
  mean of no components at all is \<^verbatim>\<open>0.0 / 0.0\<close>.\<close>

definition norm_rms :: "xreal list \<Rightarrow> xreal" where
  "norm_rms x =
     (if x = [] \<or> NaN \<in> set x then NaN
      else if PInf \<in> set x then PInf
      else Fin (sqrt (sum_list (map (\<lambda>q. case q of Fin v \<Rightarrow> v * v | _ \<Rightarrow> 0) x) /
                  real (length x))))"

text \<open>Lines 137 and 138: \<^verbatim>\<open>scale = atol + np.maximum(np.abs(y), np.abs(y_new)) * rtol\<close> and
  \<^verbatim>\<open>norm(error / scale)\<close>, component by component. A component of \<open>scale\<close> is zero when
  \<open>atol\<close>, \<open>y\<close> and \<open>y_new\<close> are zero there.\<close>

definition error_scale :: "vec \<Rightarrow> real \<Rightarrow> vec \<Rightarrow> vec \<Rightarrow> vec" where
  "error_scale atl rtl y y_new =
     vadd atl (smulr (map2 max (map abs y) (map abs y_new)) rtl)"

definition scaled_error_norm :: "vec \<Rightarrow> real \<Rightarrow> vec \<Rightarrow> vec \<Rightarrow> vec \<Rightarrow> py_error + xreal" where
  "scaled_error_norm atl rtl y y_new err =
     (if length y_new \<noteq> length y \<or> length atl \<noteq> length y \<or> length err \<noteq> length y
      then Inl ShapeMismatch
      else Inr (norm_rms (map2 np_divide err (error_scale atl rtl y y_new))))"

text \<open>\<^verbatim>\<open>-1 / self.order\<close>: true division of Python integers, which raises on a zero order.\<close>

definition neg_inv_order :: "int \<Rightarrow> py_error + real" where
  "neg_inv_order ord = (if ord = 0 then Inl ZeroDivisionError else Inr (- 1 / real_of_int ord))"

text \<open>\<^verbatim>\<open>x ** e\<close> on a numpy float \<open>x\<close> that is a norm, so not negative: a zero base with a
  negative exponent gives \<^verbatim>\<open>inf\<close> (with the divide warning that \<^verbatim>\<open>np.errstate\<close> silences), not
  an exception; an infinite base gives 0 with a negative exponent; a nan base gives nan
  (and 1 with the exponent 0, as every base does).\<close>

definition np_power :: "xreal \<Rightarrow> real \<Rightarrow> xreal" where
  "np_power x e =
     (case x of
        Fin v \<Rightarrow>
          if v = 0 then (if e < 0 then PInf else if e = 0 then Fin 1 else Fin 0)
          else Fin (v powr e)
      | PInf \<Rightarrow> if e < 0 then Fin 0 else if e = 0 then Fin 1 else PInf
      | NaN \<Rightarrow> if e = 0 then Fin 1 else NaN)"

text \<open>\<^verbatim>\<open>SAFETY * x\<close>.\<close>

definition times_SAFETY :: "xreal \<Rightarrow> xreal" where
  "times_SAFETY x = (case x of Fin v \<Rightarrow> Fin (SAFETY * v) | PInf \<Rightarrow> PInf | NaN \<Rightarrow> NaN)"

text \<open>Python's \<^verbatim>\<open>max(a, x)\<close> and \<^verbatim>\<open>min(a, x)\<close> with a number first: the second argument
  is returned when it compares greater (less) than the first, so a nan second argument
  gives \<open>a\<close>.\<close>

fun xmax :: "real \<Rightarrow> xreal \<Rightarrow> xreal" where
  "xmax a (Fin v) = Fin (max a v)"
| "xmax a PInf = PInf"
| "xmax a NaN = Fin a"

fun xmin :: "real \<Rightarrow> xreal \<Rightarrow> real" where
  "xmin a (Fin v) = min a v"
| "xmin a PInf = a"
| "xmin a NaN = a"

text \<open>Lines 128 to 134, the head of the trial loop: the magnitude, the end point and the signed
  step of the trial.\<close>

definition clamp_trial :: "real \<Rightarrow> real \<Rightarrow> real \<Rightarrow> real \<Rightarrow> real \<Rightarrow> real \<times> real \<times> real" where
  "clamp_trial t b s d h_abs =
     (if h_abs > d then (d, b, d * s) else (h_abs, t + h_abs * s, h_abs * s))"

text \<open>Line 141, the step size after a rejection:
  \<^verbatim>\<open>h_abs *= max(MIN_FACTOR, SAFETY * error_norm ** (-1 / self.order))\<close>. The factor is a
  number, except for an infinite norm under a negative order.\<close>

definition shrink_factor :: "xreal \<Rightarrow> real \<Rightarrow> xreal" where
  "shrink_factor error_norm ex = xmax MIN_FACTOR (times_SAFETY (np_power error_norm ex))"

definition shrink_step_size :: "real \<Rightarrow> xreal \<Rightarrow> int \<Rightarrow> py_error + real" where
  "shrink_step_size h_abs error_norm ord =
     (case neg_inv_order ord of
        Inl e \<Rightarrow> Inl e
      | Inr ex \<Rightarrow>
          (case shrink_factor error_norm ex of
             Fin c \<Rightarrow> Inr (h_abs * c)
           | _ \<Rightarrow> Inl NonFinite))"

text \<open>Line 147, the growth after acceptance:
  \<^verbatim>\<open>h_abs *= min(MAX_FACTOR, max(1, SAFETY * error_norm**(-1/self.order)))\<close>. With a nan norm
  the factor is 1.\<close>

definition growth_factor :: "xreal \<Rightarrow> real \<Rightarrow> real" where
  "growth_factor error_norm ex =
     xmin MAX_FACTOR (xmax 1 (times_SAFETY (np_power error_norm ex)))"

definition grow_step_size :: "real \<Rightarrow> xreal \<Rightarrow> int \<Rightarrow> py_error + real" where
  "grow_step_size h_abs error_norm ord =
     (case neg_inv_order ord of
        Inl e \<Rightarrow> Inl e
      | Inr ex \<Rightarrow> Inr (h_abs * growth_factor error_norm ex))"

text \<open>What the loop hands over when it breaks: the accepted trial.\<close>

record trial =
  trial_h_abs :: real
  trial_h :: real
  trial_t_new :: real
  trial_y_new :: vec
  trial_f_new :: vec
  trial_error_norm :: xreal
  trial_K :: matrix
  trial_calls :: calls

text \<open>The \<^verbatim>\<open>while True\<close> loop of \<^verbatim>\<open>step\<close>. In exact arithmetic nothing bounds the number of
  rejections, so the loop is a partial function: \<open>None\<close> is a loop that never breaks. The
  test \<^verbatim>\<open>error_norm > 1\<close> is true of an infinite norm and false of a nan norm, so a trial
  with a nan norm is accepted.\<close>

partial_function (option) step_loop ::
    "solver \<Rightarrow> real \<Rightarrow> real \<Rightarrow> matrix \<Rightarrow> calls \<Rightarrow> (py_error + trial) option" where
  "step_loop sv d h_abs K cs =
     (case clamp_trial (state_t (state sv)) (t_crit sv) (direction sv) d h_abs of
        (h_abs1, t_new, h) \<Rightarrow>
          (case rk_step (fun_rhs sv) (state_t (state sv)) (state_y (state sv))
                  (state_f (state sv)) h (coef_A sv) (coef_B sv) (coef_C sv) (coef_E sv) K of
             Inl e \<Rightarrow> Some (Inl e)
           | Inr (y_new, f_new, err, K1, cs1) \<Rightarrow>
               (case scaled_error_norm (atol sv) (rtol sv) (state_y (state sv)) y_new err of
                  Inl e \<Rightarrow> Some (Inl e)
                | Inr error_norm \<Rightarrow>
                    if xgt error_norm 1 then
                      (case shrink_step_size h_abs1 error_norm (order sv) of
                         Inl e \<Rightarrow> Some (Inl e)
                       | Inr h_abs2 \<Rightarrow> step_loop sv d h_abs2 K1 (cs @ cs1))
                    else Some (Inr \<lparr>trial_h_abs = h_abs1, trial_h = h, trial_t_new = t_new,
                           trial_y_new = y_new, trial_f_new = f_new,
                           trial_error_norm = error_norm, trial_K = K1,
                           trial_calls = cs @ cs1\<rparr>))))"

text \<open>What holds of a trial that the loop accepted: it is the head of the loop at some
  magnitude, the result of \<^verbatim>\<open>rk_step\<close> at its signed step on some buffer, and its error norm
  is the norm of that result and not above 1.\<close>

definition trial_ok :: "solver \<Rightarrow> real \<Rightarrow> trial \<Rightarrow> bool" where
  "trial_ok sv d tr \<longleftrightarrow>
    (\<exists>h0 K0 err cs1.
        clamp_trial (state_t (state sv)) (t_crit sv) (direction sv) d h0 =
          (trial_h_abs tr, trial_t_new tr, trial_h tr) \<and>
        rk_step (fun_rhs sv) (state_t (state sv)) (state_y (state sv)) (state_f (state sv))
          (trial_h tr) (coef_A sv) (coef_B sv) (coef_C sv) (coef_E sv) K0 =
          Inr (trial_y_new tr, trial_f_new tr, err, trial_K tr, cs1) \<and>
        scaled_error_norm (atol sv) (rtol sv) (state_y (state sv)) (trial_y_new tr) err =
          Inr (trial_error_norm tr) \<and>
        \<not> xgt (trial_error_norm tr) 1)"

text \<open>Lines 150 to 153, the midpoint value.\<close>

definition midpoint :: "vec option \<Rightarrow> vec \<Rightarrow> real \<Rightarrow> matrix \<Rightarrow> py_error + vec option" where
  "midpoint M y h K =
     (case M of
        None \<Rightarrow> Inr None
      | Some m \<Rightarrow>
          if length m \<noteq> length K \<or> length y \<noteq> ncols K then Inl ShapeMismatch
          else Inr (Some (vadd y (smul (0.5 * h) (dotT (ncols K) K m)))))"

definition new_status :: "real \<Rightarrow> real \<Rightarrow> real \<Rightarrow> solver_status" where
  "new_status t_new b t =
     (if t_new = b then Finished else if t_new = t then Failed else Running)"

text \<open>\<^verbatim>\<open>step\<close>: the new solver and the points at which the right-hand side was called.\<close>

definition step :: "solver \<Rightarrow> (py_error + solver \<times> calls) option" where
  "step sv =
     (if status sv \<noteq> Running \<and> status sv \<noteq> Started then Some (Inr (sv, []))
      else case step_loop sv \<bar>t_crit sv - state_t (state sv)\<bar> (step_size sv) (stage_K sv) [] of
        None \<Rightarrow> None
      | Some (Inl e) \<Rightarrow> Some (Inl e)
      | Some (Inr tr) \<Rightarrow>
          (case grow_step_size (trial_h_abs tr) (trial_error_norm tr) (order sv) of
             Inl e \<Rightarrow> Some (Inl e)
           | Inr h_abs \<Rightarrow>
               (case midpoint (coef_M sv) (state_y (state sv)) (trial_h tr) (trial_K tr) of
                  Inl e \<Rightarrow> Some (Inl e)
                | Inr ym \<Rightarrow>
                    Some (Inr (sv\<lparr>state := \<lparr>state_t = trial_t_new tr, state_y = trial_y_new tr,
                                   state_f = fun_rhs sv (trial_t_new tr) (trial_y_new tr),
                                   state_ym = ym\<rparr>,
                                 stage_K := trial_K tr,
                                 step_size := xmin h_abs (max_step sv),
                                 status := new_status (trial_t_new tr) (t_crit sv)
                                             (state_t (state sv))\<rparr>,
                               trial_calls tr @ [(trial_t_new tr, trial_y_new tr)])))))"

section \<open>The tableau catalog\<close>

text \<open>The Bogacki-Shampine coefficients of \<^verbatim>\<open>RungeKutta23\<close> (order 3, no midpoint set).\<close>

definition C23 :: vec where
  "C23 = [1 / 2, 3 / 4]"

definition A23 :: "vec list" where
  "A23 = [[1 / 2], [0, 3 / 4]]"

definition B23 :: vec where
  "B23 = [2 / 9, 1 / 3, 4 / 9]"

definition E23 :: vec where
  "E23 = [5 / 72, - 1 / 12, - 1 / 9, 1 / 8]"

text \<open>The Dormand-Prince coefficients of \<^verbatim>\<open>RungeKutta45\<close> (order 5, with the midpoint set
  \<^verbatim>\<open>M45\<close>).\<close>

definition C45 :: vec where
  "C45 = [1 / 5, 3 / 10, 4 / 5, 8 / 9, 1]"

definition A45 :: "vec list" where
  "A45 = [[1 / 5],
          [3 / 40, 9 / 40],
          [44 / 45, - 56 / 15, 32 / 9],
          [19372 / 6561, - 25360 / 2187, 64448 / 6561, - 212 / 729],
          [9017 / 3168, - 355 / 33, 46732 / 5247, 49 / 176, - 5103 / 18656]]"

definition B45 :: vec where
  "B45 = [35 / 384, 0, 500 / 1113, 125 / 192, - 2187 / 6784, 11 / 84]"

definition E45 :: vec where
  "E45 = [- 71 / 57600, 0, 71 / 16695, - 71 / 1920, 17253 / 339200, - 22 / 525, 1 / 40]"

definition M45 :: vec where
  "M45 = [613 / 3072, 0, 125 / 159, - 125 / 1536, 8019 / 54272, - 11 / 96, 1 / 16]"

section \<open>Well-shaped solvers\<close>

text \<open>A solver as the constructor builds it for a system of \<open>n\<close> equations: a tableau
  that meets the invariant of the data model, the buffer \<^verbatim>\<open>np.empty((B.size + 1, n))\<close>, a state
  and tolerances of \<open>n\<close> components, and a midpoint set, if any, of \<open>n_stages + 1\<close>
  coefficients.\<close>

definition solver_ok :: "nat \<Rightarrow> solver \<Rightarrow> bool" where
  "solver_ok n sv \<longleftrightarrow>
     tableau_ok (coef_A sv) (coef_B sv) (coef_C sv) (coef_E sv) \<and>
     buffer_ok (length (coef_B sv) + 1) n (stage_K sv) \<and>
     length (state_y (state sv)) = n \<and> length (state_f (state sv)) = n \<and>
     rhs_ok n (fun_rhs sv) \<and> length (atol sv) = n \<and>
     (case coef_M sv of None \<Rightarrow> True | Some m \<Rightarrow> length m = length (coef_B sv) + 1)"

section \<open>The dense-output builder\<close>

text \<open>
  What \<^verbatim>\<open>spline\<close> returns. \<open>PointSpline t y\<close> is the single-point fallback of
  \<^verbatim>\<open>common.py\<close>, kept as data. \<open>PPoly c x\<close> is scipy's piecewise polynomial with
  breakpoints \<open>x\<close> and coefficients \<open>c[k][i][j]\<close>: \<open>k\<close> the place of the coefficient
  (highest degree first), \<open>i\<close> the segment, \<open>j\<close> the component of the solution. That is
  the array \<^verbatim>\<open>c\<close> as lines 196 to 209 fill it; \<^verbatim>\<open>np.rollaxis(c, 2)\<close> and \<^verbatim>\<open>axis=1\<close> only move
  the component axis to the front and back again.
\<close>

datatype dense_output = PointSpline real vec | PPoly "matrix list" "real list"

definition madd :: "matrix \<Rightarrow> matrix \<Rightarrow> matrix" where
  "madd X Y = map2 vadd X Y"

definition msub :: "matrix \<Rightarrow> matrix \<Rightarrow> matrix" where
  "msub X Y = map2 vsub X Y"

definition mscale :: "real \<Rightarrow> matrix \<Rightarrow> matrix" where
  "mscale c X = map (smul c) X"

text \<open>\<^verbatim>\<open>X / h\<close> for \<open>h\<close> of shape \<open>(m, 1)\<close>: row \<open>i\<close> is divided by \<open>h[i]\<close>.\<close>

definition mdiv_col :: "matrix \<Rightarrow> real list \<Rightarrow> matrix" where
  "mdiv_col X h = map2 (\<lambda>row hi. map (\<lambda>v. v / hi) row) X h"

text \<open>\<^verbatim>\<open>np.diff\<close>.\<close>

definition diff :: "real list \<Rightarrow> real list" where
  "diff t = map2 (\<lambda>a b. b - a) (butlast t) (tl t)"

text \<open>Lines 196 to 202, the cubic without a midpoint.\<close>

definition cubic_coeffs :: "real list \<Rightarrow> matrix \<Rightarrow> matrix \<Rightarrow> matrix \<Rightarrow> matrix \<Rightarrow> matrix list" where
  "cubic_coeffs h y0 y1 f0 f1 =
     (let slope = mdiv_col (msub y1 y0) h;
          tt = mdiv_col (msub (madd f0 f1) (mscale 2 slope)) h
      in [mdiv_col tt h, msub (mdiv_col (msub slope f0) h) tt, f0, y0])"

text \<open>Lines 204 to 209, the quartic through the midpoint.\<close>

definition quartic_coeffs ::
    "real list \<Rightarrow> matrix \<Rightarrow> matrix \<Rightarrow> matrix \<Rightarrow> matrix \<Rightarrow> matrix \<Rightarrow> matrix list" where
  "quartic_coeffs h y0 y1 f0 f1 ym =
     [madd (mdiv_col (madd (msub (mscale (- 8) y0) (mscale 8 y1)) (mscale 16 ym))
              (map (\<lambda>x. x ^ 4) h))
           (mdiv_col (madd (mscale (- 2) f0) (mscale 2 f1)) (map (\<lambda>x. x ^ 3) h)),
      madd (mdiv_col (msub (madd (mscale 18 y0) (mscale 14 y1)) (mscale 32 ym))
              (map (\<lambda>x. x ^ 3) h))
           (mdiv_col (msub (mscale 5 f0) (mscale 3 f1)) (map (\<lambda>x. x ^ 2) h)),
      madd (mdiv_col (madd (msub (mscale (- 11) y0) (mscale 5 y1)) (mscale 16 ym))
              (map (\<lambda>x. x ^ 2) h))
           (mdiv_col (madd (mscale (- 4) f0) f1) h),
      f0, y0]"

text \<open>Lines 186 to 212: from the arrays in increasing time to the piecewise polynomial.\<close>

definition ppoly_of :: "real list \<Rightarrow> matrix \<Rightarrow> matrix \<Rightarrow> matrix option \<Rightarrow> dense_output" where
  "ppoly_of t y f ym =
     (let h = diff t; y0 = butlast y; y1 = tl y; f0 = butlast f; f1 = tl f
      in case ym of
           None \<Rightarrow> PPoly (cubic_coeffs h y0 y1 f0 f1) t
         | Some ymv \<Rightarrow> PPoly (quartic_coeffs h y0 y1 f0 f1 ymv) t)"

text \<open>
  \<^verbatim>\<open>spline\<close>. An empty list fails at \<^verbatim>\<open>t[-1]\<close>. The arrays must be rectangular: vectors of
  different lengths are a \<open>ShapeMismatch\<close>, and with a midpoint set a state after the first
  that carries no \<^verbatim>\<open>ym\<close> makes the arithmetic on \<^verbatim>\<open>None\<close> fail (\<open>TypeError\<close>). The midpoint
  values are taken from \<^verbatim>\<open>states[1:]\<close> in the order given, before the arrays are reversed.
\<close>

definition spline :: "vec option \<Rightarrow> ode_state list \<Rightarrow> py_error + dense_output" where
  "spline M states =
     (if length states = 1
      then Inr (PointSpline (state_t (hd states)) (state_y (hd states)))
      else if states = [] then Inl IndexError
      else let n = length (state_y (hd states)) in
        if \<exists>s\<in>set states. length (state_y s) \<noteq> n \<or> length (state_f s) \<noteq> n
        then Inl ShapeMismatch
        else if M \<noteq> None \<and> (\<exists>s\<in>set (tl states). state_ym s = None) then Inl TypeError
        else if M \<noteq> None \<and> (\<exists>s\<in>set (tl states). length (the (state_ym s)) \<noteq> n)
        then Inl ShapeMismatch
        else
          let t = map state_t states;
              y = map state_y states;
              f = map state_f states;
              ym = (if M \<noteq> None then Some (map (\<lambda>s. the (state_ym s)) (tl states))
                    else None)
          in if last t < hd t
             then Inr (ppoly_of (rev t) (rev y) (rev f) (map_option rev ym))
             else Inr (ppoly_of t y f ym))"

text \<open>
  How scipy evaluates a piece: segment \<open>i\<close>, component \<open>j\<close> is the polynomial in
  \<open>t - x[i]\<close> with the coefficients \<open>c[0][i][j], c[1][i][j], ...\<close>, highest degree first;
  \<open>dpoly_hf\<close> is its derivative.
\<close>

fun poly_hf :: "real list \<Rightarrow> real \<Rightarrow> real" where
  "poly_hf [] x = 0"
| "poly_hf (a # as) x = a * x ^ length as + poly_hf as x"

fun dpoly_hf :: "real list \<Rightarrow> real \<Rightarrow> real" where
  "dpoly_hf [] x = 0"
| "dpoly_hf (a # as) x = a * (real (length as) * x ^ (length as - 1)) + dpoly_hf as x"





text \<open>States whose \<^verbatim>\<open>y\<close> and \<^verbatim>\<open>f\<close> all have \<open>n\<close> components, so that \<^verbatim>\<open>np.asarray\<close> makes
  arrays of shape \<open>(n_points, n)\<close> of them.\<close>

definition rectangular :: "nat \<Rightarrow> ode_state list \<Rightarrow> bool" where
  "rectangular n states \<longleftrightarrow> (\<forall>s\<in>set states. length (state_y s) = n \<and> length (state_f s) = n)"

section \<open>A run with one rejection\<close>

text \<open>A \<^verbatim>\<open>RungeKutta45\<close> solver on one equation whose right-hand side jumps at \<open>t = 1/2\<close>:
  the first trial, of size 1, steps over the jump and is rejected; the second, of size
  \<open>1/5\<close>, stays before it and is accepted with a zero error estimate.\<close>

definition jump_rhs :: rhs where
  "jump_rhs t v = [if t < 1 / 2 then 1 else 1000]"

definition jump_solver :: solver where
  "jump_solver =
     \<lparr>fun_rhs = jump_rhs,
      state = \<lparr>state_t = 0, state_y = [0], state_f = [1], state_ym = None\<rparr>,
      status = Started, direction = 1, t_crit = 10,
      coef_C = C45, coef_A = A45, coef_B = B45, coef_E = E45, coef_M = Some M45,
      stage_K = replicate 7 [0], order = 5, max_step = PInf,
      rtol = 1 / 1000000, atol = [1 / 100000], step_size = 1\<rparr>"

definition jump_calls :: calls where
  "jump_calls =
     [(1 / 5, [1 / 5]), (3 / 10, [3 / 10]), (4 / 5, [4 / 5]), (8 / 9, [- 7820 / 27]),
      (1, [109565 / 18656]), (1, [21851995 / 47488]),
      (1 / 25, [1 / 25]), (3 / 50, [3 / 50]), (4 / 25, [4 / 25]), (8 / 45, [8 / 45]),
      (1 / 5, [1 / 5]), (1 / 5, [1 / 5]), (1 / 5, [1 / 5])]"

definition jump_trial :: trial where
  "jump_trial =
     \<lparr>trial_h_abs = 1 / 5, trial_h = 1 / 5, trial_t_new = 1 / 5, trial_y_new = [1 / 5],
      trial_f_new = [1], trial_error_norm = Fin 0, trial_K = replicate 7 [1],
      trial_calls = butlast jump_calls\<rparr>"

definition jump_solver_after :: solver where
  "jump_solver_after =
     jump_solver\<lparr>state := \<lparr>state_t = 1 / 5, state_y = [1 / 5], state_f = [1],
                             state_ym = Some [1 / 10]\<rparr>,
                  stage_K := replicate 7 [1], step_size := 1, status := Running\<rparr>"

text \<open>The two states of that run, in the order of integration, and the state a further step
  of size \<open>1/5\<close> adds to them.\<close>

definition jump_states :: "ode_state list" where
  "jump_states = [state jump_solver, state jump_solver_after]"

definition jump_third_state :: ode_state where
  "jump_third_state =
     \<lparr>state_t = 2 / 5, state_y = [2 / 5], state_f = [1], state_ym = Some [3 / 10]\<rparr>"

section \<open>A run clamped to the boundary\<close>

text \<open>The same solver with the boundary at \<open>3/4\<close>, nearer than the stored step size 1: the
  first trial is clamped to \<open>3/4\<close>, steps over the jump and is rejected; the second, of size
  \<open>3/20\<close>, is accepted.\<close>

definition near_solver :: solver where
  "near_solver = jump_solver\<lparr>t_crit := 3 / 4\<rparr>"

definition near_calls :: calls where
  "near_calls =
     [(3 / 20, [3 / 20]), (9 / 40, [9 / 40]), (3 / 5, [3 / 5]), (2 / 3, [- 1955 / 9]),
      (3 / 4, [328695 / 74624]), (3 / 4, [65555985 / 189952]),
      (3 / 100, [3 / 100]), (9 / 200, [9 / 200]), (3 / 25, [3 / 25]), (2 / 15, [2 / 15]),
      (3 / 20, [3 / 20]), (3 / 20, [3 / 20]), (3 / 20, [3 / 20])]"

definition near_trial :: trial where
  "near_trial =
     \<lparr>trial_h_abs = 3 / 20, trial_h = 3 / 20, trial_t_new = 3 / 20, trial_y_new = [3 / 20],
      trial_f_new = [1], trial_error_norm = Fin 0, trial_K = replicate 7 [1],
      trial_calls = butlast near_calls\<rparr>"

definition near_solver_after :: solver where
  "near_solver_after =
     near_solver\<lparr>state := \<lparr>state_t = 3 / 20, state_y = [3 / 20], state_f = [1],
                             state_ym = Some [3 / 40]\<rparr>,
                  stage_K := replicate 7 [1], step_size := 3 / 4, status := Running\<rparr>"

section \<open>A run capped by the largest step size\<close>

text \<open>The solver of the first run with the step size \<open>1/5\<close> and \<^verbatim>\<open>max_step = 1/2\<close>: the
  first trial is accepted with a zero error estimate, and the grown step size 1 is cut to
  \<open>1/2\<close>.\<close>

definition capped_solver :: solver where
  "capped_solver = jump_solver\<lparr>max_step := Fin (1 / 2), step_size := 1 / 5\<rparr>"

definition capped_calls :: calls where
  "capped_calls =
     [(1 / 25, [1 / 25]), (3 / 50, [3 / 50]), (4 / 25, [4 / 25]), (8 / 45, [8 / 45]),
      (1 / 5, [1 / 5]), (1 / 5, [1 / 5]), (1 / 5, [1 / 5])]"

definition capped_trial :: trial where
  "capped_trial =
     \<lparr>trial_h_abs = 1 / 5, trial_h = 1 / 5, trial_t_new = 1 / 5, trial_y_new = [1 / 5],
      trial_f_new = [1], trial_error_norm = Fin 0, trial_K = replicate 7 [1],
      trial_calls = butlast capped_calls\<rparr>"

definition capped_solver_after :: solver where
  "capped_solver_after =
     capped_solver\<lparr>state := \<lparr>state_t = 1 / 5, state_y = [1 / 5], state_f = [1],
                               state_ym = Some [1 / 10]\<rparr>,
                    stage_K := replicate 7 [1], step_size := 1 / 2, status := Running\<rparr>"

section \<open>A run with a zero error scale\<close>






text \<open>A \<^verbatim>\<open>RungeKutta23\<close> solver with \<^verbatim>\<open>atol = 0\<close> on a right-hand side that is zero except
  at three points in time: the first trial, of size 1, ends at \<open>y_new = 0\<close> with the error
  estimate 1 over the scale 0, an infinite norm, and is rejected; the second, of size
  \<open>1/5\<close>, has error and scale zero, a nan norm, and is accepted.\<close>

definition spike_rhs :: rhs where
  "spike_rhs t v = [if t = 1 / 2 then 4 else if t = 3 / 4 then - 3 else if t = 1 then 8 else 0]"

definition spike_solver :: solver where
  "spike_solver =
     \<lparr>fun_rhs = spike_rhs,
      state = \<lparr>state_t = 0, state_y = [0], state_f = [0], state_ym = None\<rparr>,
      status = Started, direction = 1, t_crit = 10,
      coef_C = C23, coef_A = A23, coef_B = B23, coef_E = E23, coef_M = None,
      stage_K = replicate 4 [0], order = 3, max_step = PInf,
      rtol = 1 / 1000, atol = [0], step_size = 1\<rparr>"

definition spike_calls :: calls where
  "spike_calls =
     [(1 / 2, [0]), (3 / 4, [3]), (1, [0]),
      (1 / 10, [0]), (3 / 20, [0]), (1 / 5, [0]), (1 / 5, [0])]"

definition spike_trial :: trial where
  "spike_trial =
     \<lparr>trial_h_abs = 1 / 5, trial_h = 1 / 5, trial_t_new = 1 / 5, trial_y_new = [0],
      trial_f_new = [0], trial_error_norm = NaN, trial_K = replicate 4 [0],
      trial_calls = butlast spike_calls\<rparr>"

definition spike_solver_after :: solver where
  "spike_solver_after =
     spike_solver\<lparr>state := \<lparr>state_t = 1 / 5, state_y = [0], state_f = [0], state_ym = None\<rparr>,
                   stage_K := replicate 4 [0], step_size := 1 / 5, status := Running\<rparr>"

section \<open>Properties of the stage evaluator\<close>

lemma length_vadd [simp]: "length (vadd xs ys) = min (length xs) (length ys)"
  by (simp add: vadd_def)

lemma length_vsub [simp]: "length (vsub xs ys) = min (length xs) (length ys)"
  by (simp add: vsub_def)

lemma length_smul [simp]: "length (smul c xs) = length xs"
  by (simp add: smul_def)

lemma length_smulr [simp]: "length (smulr xs c) = length xs"
  by (simp add: smulr_def)

lemma length_dotT [simp]: "length (dotT n R a) = n"
  by (simp add: dotT_def)

lemma smulr_smul: "smulr xs c = smul c xs"
  by (simp add: smulr_def smul_def mult.commute)

lemma ncols_update_Suc [simp]: "ncols (K[Suc j := r]) = ncols K"
  by (cases K) (simp_all add: ncols_def)

lemma rk_stages_ok:
  assumes "length acs + s < length K" "ncols K = n" "length y = n"
    "\<forall>i<length acs. length (fst (acs ! i)) = s + 1 + i"
    "\<forall>t v. length v = n \<longrightarrow> length (fn t v) = n"
  shows "\<exists>K' cs'. rk_stages fn t y h s acs K cs = Inr (K', cs') \<and> length K' = length K \<and>
      ncols K' = n \<and> take (s + 1) K' = take (s + 1) K \<and>
      (\<forall>j. s + length acs < j \<longrightarrow> K' ! j = K ! j) \<and>
      (\<forall>i<length acs. K' ! (s + 1 + i) =
          fn (t + snd (acs ! i) * h)
             (vadd y (smul h (dotT n (take (s + 1 + i) K') (fst (acs ! i))))))"
  using assms
proof (induction acs arbitrary: s K cs)
  case Nil
  then show ?case by simp
next
  case (Cons ac acs)
  obtain a c where ac: "ac = (a, c)" by (cases ac)
  define dy where "dy = smulr (dotT n (take (s + 1) K) a) h"
  define r where "r = fn (t + c * h) (vadd y dy)"
  define K1 where "K1 = K[s + 1 := r]"
  from Cons.prems(4) have la: "length a = s + 1" by (auto simp: ac)
  from Cons.prems(1) have lK: "s + 1 < length K" by simp
  have lr: "length r = n" using Cons.prems(3,5) by (simp add: r_def dy_def)
  have p1: "length acs + (s + 1) < length K1" using Cons.prems(1) by (simp add: K1_def)
  have p2: "ncols K1 = n" using Cons.prems(2) by (simp add: K1_def)
  have p4: "\<forall>i<length acs. length (fst (acs ! i)) = (s + 1) + 1 + i"
  proof (intro allI impI)
    fix i assume "i < length acs"
    then have "length (fst ((ac # acs) ! Suc i)) = s + 1 + Suc i"
      using Cons.prems(4) by (metis Suc_less_eq length_Cons)
    then show "length (fst (acs ! i)) = (s + 1) + 1 + i" by simp
  qed
  from Cons.IH[OF p1 p2 Cons.prems(3) p4 Cons.prems(5), of "cs @ [(t + c * h, vadd y dy)]"]
  obtain K' cs' where
    run: "rk_stages fn t y h (s + 1) acs K1 (cs @ [(t + c * h, vadd y dy)]) = Inr (K', cs')"
    and len: "length K' = length K1" and nc: "ncols K' = n"
    and tk: "take (s + 1 + 1) K' = take (s + 1 + 1) K1"
    and rest: "\<forall>j. s + 1 + length acs < j \<longrightarrow> K' ! j = K1 ! j"
    and rec: "\<forall>i<length acs. K' ! (s + 1 + 1 + i) =
          fn (t + snd (acs ! i) * h)
             (vadd y (smul h (dotT n (take (s + 1 + 1 + i) K') (fst (acs ! i)))))"
    by blast
  have step: "rk_stages fn t y h s (ac # acs) K cs = Inr (K', cs')"
    using run la lK lr Cons.prems(2,3)
    by (simp add: ac Let_def dy_def r_def K1_def)
  have tk1: "take (s + 1) K' = take (s + 1) K"
  proof -
    have "take (s + 1) K' = take (s + 1) (take (s + 1 + 1) K')" by (simp add: min_def)
    also have "\<dots> = take (s + 1) (take (s + 1 + 1) K1)" by (simp only: tk)
    also have "\<dots> = take (s + 1) K1" by (simp add: min_def)
    also have "\<dots> = take (s + 1) K" by (simp add: K1_def)
    finally show ?thesis .
  qed
  have row: "K' ! (s + 1) = r"
  proof -
    have "K' ! (s + 1) = take (s + 1 + 1) K' ! (s + 1)" by simp
    also have "\<dots> = take (s + 1 + 1) K1 ! (s + 1)" by (simp only: tk)
    also have "\<dots> = r" using lK by (simp add: K1_def)
    finally show ?thesis .
  qed
  have rec': "\<forall>i<length (ac # acs). K' ! (s + 1 + i) =
          fn (t + snd ((ac # acs) ! i) * h)
             (vadd y (smul h (dotT n (take (s + 1 + i) K') (fst ((ac # acs) ! i)))))"
  proof (intro allI impI)
    fix i assume i: "i < length (ac # acs)"
    show "K' ! (s + 1 + i) = fn (t + snd ((ac # acs) ! i) * h)
             (vadd y (smul h (dotT n (take (s + 1 + i) K') (fst ((ac # acs) ! i)))))"
    proof (cases i)
      case 0
      then show ?thesis using row tk1 by (simp add: ac r_def dy_def smulr_smul)
    next
      case (Suc i')
      then have "i' < length acs" using i by simp
      with rec show ?thesis by (simp add: Suc)
    qed
  qed
  have rest': "\<forall>j. s + length (ac # acs) < j \<longrightarrow> K' ! j = K ! j"
    using rest by (simp add: K1_def)
  show ?case using step len nc tk1 rest' rec' by (simp add: K1_def)
qed

lemma buffer_ok_ncols: "buffer_ok m n K \<Longrightarrow> 0 < m \<Longrightarrow> ncols K = n"
  by (cases K) (auto simp: buffer_ok_def ncols_def)

lemma ncols_update_same: "length r = ncols K \<Longrightarrow> ncols (K[j := r]) = ncols K"
  by (cases K; cases j) (simp_all add: ncols_def)

lemma rk_step_char:
  assumes tab: "tableau_ok A B C E" and lK: "length K = length B + 1" and nK: "ncols K = n"
    and ly: "length y = n" and lf: "length f = n" and fn: "rhs_ok n fn"
  shows "\<exists>y_new f_new err K' cs. rk_step fn t y f h A B C E K = Inr (y_new, f_new, err, K', cs) \<and>
      length K' = length B + 1 \<and> ncols K' = n \<and> K' ! 0 = f \<and>
      (\<forall>s<length A. K' ! (s + 1) =
          fn (t + C ! s * h) (vadd y (smul h (dotT n (take (s + 1) K') (A ! s))))) \<and>
      y_new = vadd y (smul h (dotT n (take (length B) K') B)) \<and>
      f_new = fn (t + h) y_new \<and> K' ! length B = f_new \<and>
      err = smul h (dotT n K' E) \<and> length y_new = n \<and> length f_new = n"
proof -
  from tab have lB: "length B = length A + 1" and lC: "length C = length A"
    and lE: "length E = length B + 1" and lA: "\<forall>s<length A. length (A ! s) = s + 1"
    by (simp_all add: tableau_ok_def)
  define K0 where "K0 = K[0 := f]"
  have K0: "length K0 = length A + 2" "ncols K0 = n"
    using lK lB nK lf by (simp_all add: K0_def ncols_update_same)
  have a1: "length (zip A C) + 0 < length K0" using K0 lC by simp
  have a4: "\<forall>i<length (zip A C). length (fst (zip A C ! i)) = 0 + 1 + i"
    using lA lC by simp
  have a5: "\<forall>t v. length v = n \<longrightarrow> length (fn t v) = n" using fn by (simp add: rhs_ok_def)
  from rk_stages_ok[OF a1 K0(2) ly a4 a5, of t h "[]"]
  obtain K1 cs1 where run: "rk_stages fn t y h 0 (zip A C) K0 [] = Inr (K1, cs1)"
    and l1: "length K1 = length K0" and n1: "ncols K1 = n"
    and tk: "take (0 + 1) K1 = take (0 + 1) K0"
    and rec: "\<forall>i<length (zip A C). K1 ! (0 + 1 + i) =
          fn (t + snd (zip A C ! i) * h)
             (vadd y (smul h (dotT n (take (0 + 1 + i) K1) (fst (zip A C ! i)))))"
    by blast
  define y_new where "y_new = vadd y (smul h (dotT n (butlast K1) B))"
  define f_new where "f_new = fn (t + h) y_new"
  define K2 where "K2 = K1[length K1 - 1 := f_new]"
  have lyn: "length y_new = n" using ly by (simp add: y_new_def)
  have lfn: "length f_new = n" using a5 lyn by (simp add: f_new_def)
  have l1': "length K1 = length B + 1" using l1 K0 lB by simp
  have bl: "butlast K1 = take (length B) K1" using l1' by (simp add: butlast_conv_take)
  have l2: "length K2 = length B + 1" using l1' by (simp add: K2_def)
  have n2: "ncols K2 = n" using n1 lfn by (simp add: K2_def ncols_update_same)
  have K2': "K1[length B := f_new] = K2" using l1' by (simp add: K2_def)
  have Kne: "K \<noteq> []" using lK by auto
  have res: "rk_step fn t y f h A B C E K = Inr (y_new, f_new, smulr (dotT n K2 E) h, K2,
      cs1 @ [(t + h, y_new)])"
    using run lf nK l1' n1 ly lfn lE l2 n2 Kne
    by (simp add: rk_step_def K0_def[symmetric] Let_def y_new_def[symmetric]
        f_new_def[symmetric] K2')
  have tk2: "take j K2 = take j K1" if "j \<le> length B" for j
    using that l1' by (simp add: K2_def)
  have r0: "K2 ! 0 = f"
  proof -
    have "K2 ! 0 = take 1 K2 ! 0" by simp
    also have "\<dots> = take 1 K1 ! 0" using tk2[of 1] lB by simp
    also have "\<dots> = take 1 K0 ! 0" using tk by simp
    also have "\<dots> = f" using K0(1) lK by (simp add: K0_def)
    finally show ?thesis .
  qed
  have rs: "\<forall>s<length A. K2 ! (s + 1) =
      fn (t + C ! s * h) (vadd y (smul h (dotT n (take (s + 1) K2) (A ! s))))"
  proof (intro allI impI)
    fix s assume s: "s < length A"
    then have "K2 ! (s + 1) = K1 ! (s + 1)" using l1' lB by (simp add: K2_def)
    moreover have "take (s + 1) K2 = take (s + 1) K1" using tk2[of "s + 1"] s lB by simp
    ultimately show "K2 ! (s + 1) =
      fn (t + C ! s * h) (vadd y (smul h (dotT n (take (s + 1) K2) (A ! s))))"
      using rec s lC by simp
  qed
  have yn: "y_new = vadd y (smul h (dotT n (take (length B) K2) B))"
    using tk2[of "length B"] bl by (simp add: y_new_def)
  have last: "K2 ! length B = f_new" using l1' by (simp add: K2_def)
  show ?thesis
    using res l2 n2 r0 rs yn last lyn lfn by (simp add: f_new_def smulr_smul)
qed

lemma rk_stages_shape:
  "rk_stages fn t y h s acs K cs = Inr (K', cs') \<Longrightarrow> length K' = length K \<and> ncols K' = ncols K"
proof (induction acs arbitrary: s K cs)
  case Nil
  then show ?case by simp
next
  case (Cons ac acs)
  obtain a c where ac: "ac = (a, c)" by (cases ac)
  from Cons.prems have
    "rk_stages fn t y h (s + 1) acs
       (K[s + 1 := fn (t + c * h) (vadd y (smulr (dotT (ncols K) (take (s + 1) K) a) h))])
       (cs @ [(t + c * h, vadd y (smulr (dotT (ncols K) (take (s + 1) K) a) h))]) = Inr (K', cs')"
    by (simp add: ac Let_def split: if_splits)
  from Cons.IH[OF this] show ?case by simp
qed

lemma rk_step_shape:
  assumes "rk_step fn t y f h A B C E K = Inr r"
  shows "length K = length B + 1 \<and> ncols K = length f \<and> length y = length f"
proof -
  from assms have ne: "K \<noteq> []" and nf: "length f = ncols K"
    by (auto simp: rk_step_def split: if_splits)
  from assms ne nf obtain K1 cs where
    st: "rk_stages fn t y h 0 (zip A C) (K[0 := f]) [] = Inr (K1, cs)"
    by (auto simp: rk_step_def split: if_splits sum.splits)
  from rk_stages_shape[OF st] nf have s1: "length K1 = length K" "ncols K1 = length f"
    by (simp_all add: ncols_update_same)
  from assms ne nf st have "length B = length (butlast K1) \<and> length y = ncols K1"
    by (auto simp: rk_step_def split: if_splits)
  with s1 ne show ?thesis using nf by (cases K) auto
qed

lemma stage_rows_unique:
  assumes l1: "length K1 = length A + 2" and l2: "length K2 = length A + 2"
    and z: "K1 ! 0 = K2 ! 0"
    and r1: "\<forall>s<length A. K1 ! (s + 1) = g s (take (s + 1) K1)"
    and r2: "\<forall>s<length A. K2 ! (s + 1) = g s (take (s + 1) K2)"
    and e1: "K1 ! (length A + 1) = e (take (length A + 1) K1)"
    and e2: "K2 ! (length A + 1) = e (take (length A + 1) K2)"
  shows "K1 = K2"
proof -
  have tk: "j \<le> length A \<Longrightarrow> take (j + 1) K1 = take (j + 1) K2" for j
  proof (induction j)
    case 0
    have "take 1 K1 = [K1 ! 0]" using l1 by (cases K1) auto
    moreover have "take 1 K2 = [K2 ! 0]" using l2 by (cases K2) auto
    ultimately show ?case using z by simp
  next
    case (Suc j)
    then have j: "j < length A" and IH: "take (j + 1) K1 = take (j + 1) K2" by simp_all
    have "take (Suc j + 1) K1 = take (j + 1) K1 @ [K1 ! (j + 1)]"
      using l1 j by (simp add: take_Suc_conv_app_nth)
    moreover have "take (Suc j + 1) K2 = take (j + 1) K2 @ [K2 ! (j + 1)]"
      using l2 j by (simp add: take_Suc_conv_app_nth)
    moreover have "K1 ! (j + 1) = K2 ! (j + 1)" using r1 r2 j IH by simp
    ultimately show ?case using IH by simp
  qed
  have t: "take (length A + 1) K1 = take (length A + 1) K2" using tk[of "length A"] by simp
  have "K1 = take (length A + 1) K1 @ [K1 ! (length A + 1)]"
    using l1 take_Suc_conv_app_nth[of "length A + 1" K1] by simp
  moreover have "K2 = take (length A + 1) K2 @ [K2 ! (length A + 1)]"
    using l2 take_Suc_conv_app_nth[of "length A + 1" K2] by simp
  ultimately show ?thesis using t e1 e2 by metis
qed

lemma rk_step_indep:
  assumes tab: "tableau_ok A B C E" and fn: "rhs_ok n fn" and ly: "length y = n"
    and lf: "length f = n"
    and run: "rk_step fn t y f h A B C E K = Inr (y_new, f_new, err, K', cs)"
    and lK0: "length K0 = length B + 1" and nK0: "ncols K0 = n"
  shows "\<exists>cs0. rk_step fn t y f h A B C E K0 = Inr (y_new, f_new, err, K', cs0)"
proof -
  from rk_step_shape[OF run] lf have lK: "length K = length B + 1" and nK: "ncols K = n"
    by simp_all
  from tab have lB: "length B = length A + 1" by (simp add: tableau_ok_def)
  define g where "g = (\<lambda>s R. fn (t + C ! s * h) (vadd y (smul h (dotT n R (A ! s)))))"
  define e where "e = (\<lambda>R. fn (t + h) (vadd y (smul h (dotT n R B))))"
  from rk_step_char[OF tab lK nK ly lf fn, of t h] run have
    a: "length K' = length A + 2" "K' ! 0 = f" "\<forall>s<length A. K' ! (s + 1) = g s (take (s + 1) K')"
       "K' ! (length A + 1) = e (take (length A + 1) K')"
       "y_new = vadd y (smul h (dotT n (take (length B) K') B))"
       "f_new = fn (t + h) y_new" "err = smul h (dotT n K' E)"
    by (auto simp: g_def e_def lB)
  from rk_step_char[OF tab lK0 nK0 ly lf fn, of t h]
  obtain y2 f2 err2 K2 cs2 where
    run2: "rk_step fn t y f h A B C E K0 = Inr (y2, f2, err2, K2, cs2)"
    and b: "length K2 = length A + 2" "K2 ! 0 = f"
       "\<forall>s<length A. K2 ! (s + 1) = g s (take (s + 1) K2)"
       "K2 ! (length A + 1) = e (take (length A + 1) K2)"
       "y2 = vadd y (smul h (dotT n (take (length B) K2) B))"
       "f2 = fn (t + h) y2" "err2 = smul h (dotT n K2 E)"
    by (auto simp: g_def e_def lB)
  have "K' = K2"
    by (rule stage_rows_unique[OF a(1) b(1) _ a(3) b(3) a(4) b(4)]) (simp add: a(2) b(2))
  with a b run2 show ?thesis by simp
qed

lemmas tab45 = A45_def B45_def C45_def E45_def M45_def

lemmas vec_eval = rk_step_def ncols_def dotT_def smul_def smulr_def vadd_def Let_def
  numeral_eq_Suc

lemma tableau_ok_23: "tableau_ok A23 B23 C23 E23"
  by (simp add: tableau_ok_def A23_def B23_def C23_def E23_def less_Suc_eq numeral_2_eq_2)

lemma tableau_ok_45: "tableau_ok A45 B45 C45 E45"
  by (simp add: tableau_ok_def tab45 less_Suc_eq numeral_eq_Suc)

text \<open>
  Claim C1. On a well-shaped tableau, buffer and state, \<^verbatim>\<open>rk_step\<close> returns, and what it returns
  satisfies the stage recursion and the combination formulas: row 0 of the buffer is \<open>f\<close>;
  row \<open>s + 1\<close> is the right-hand side at \<open>t + C[s] * h\<close> and \<open>y + h * dot(K[0..s].T, A[s])\<close>;
  \<open>y_new = y + h * dot(K[0..n_stages-1].T, B)\<close>; \<open>f_new\<close> is the right-hand side at
  \<open>t + h\<close> and \<open>y_new\<close>, stored in the last row; the error is \<open>h * dot(K.T, E)\<close> over all
  \<open>n_stages + 1\<close> rows.
\<close>

theorem rk_step_formulas:
  assumes "tableau_ok A B C E" and "buffer_ok (length B + 1) n K"
    and "length y = n" and "length f = n" and "rhs_ok n fn"
  shows "\<exists>y_new f_new err K' cs.
      rk_step fn t y f h A B C E K = Inr (y_new, f_new, err, K', cs) \<and>
      length K' = length B + 1 \<and> K' ! 0 = f \<and>
      (\<forall>s<length A. K' ! (s + 1) =
          fn (t + C ! s * h) (vadd y (smul h (dotT n (take (s + 1) K') (A ! s))))) \<and>
      y_new = vadd y (smul h (dotT n (butlast K') B)) \<and>
      f_new = fn (t + h) y_new \<and> last K' = f_new \<and>
      err = smul h (dotT n K' E)"
proof -
  have lK: "length K = length B + 1" using assms(2) by (simp add: buffer_ok_def)
  have nK: "ncols K = n" using assms(2) by (simp add: buffer_ok_ncols)
  from rk_step_char[OF assms(1) lK nK assms(3,4,5), of t h]
  obtain y_new f_new err K' cs where
    r: "rk_step fn t y f h A B C E K = Inr (y_new, f_new, err, K', cs)"
    and l: "length K' = length B + 1" and r0: "K' ! 0 = f"
    and rs: "\<forall>s<length A. K' ! (s + 1) =
          fn (t + C ! s * h) (vadd y (smul h (dotT n (take (s + 1) K') (A ! s))))"
    and yn: "y_new = vadd y (smul h (dotT n (take (length B) K') B))"
    and fn: "f_new = fn (t + h) y_new" and lst: "K' ! length B = f_new"
    and er: "err = smul h (dotT n K' E)"
    by blast
  have bl: "butlast K' = take (length B) K'" using l by (simp add: butlast_conv_take)
  have "K' \<noteq> []" using l by auto
  then have la: "last K' = K' ! length B" using l by (simp add: last_conv_nth)
  show ?thesis using r l r0 rs yn fn lst er bl la by simp
qed

theorem rk_step_formulas_witness:
  "tableau_ok A23 B23 C23 E23 \<and> buffer_ok (length B23 + 1) 1 [[0], [0], [0], [0]] \<and>
   rhs_ok 1 (\<lambda>t v. v) \<and>
   (\<exists>y_new f_new err K' cs.
      rk_step (\<lambda>t v. v) 0 [1] [1] 1 A23 B23 C23 E23 [[0], [0], [0], [0]] =
        Inr (y_new, f_new, err, K', cs) \<and>
      length K' = length B23 + 1 \<and> K' ! 0 = [1] \<and>
      (\<forall>s<length A23. K' ! (s + 1) =
          (\<lambda>t v. v) (0 + C23 ! s * 1) (vadd [1] (smul 1 (dotT 1 (take (s + 1) K') (A23 ! s))))) \<and>
      y_new = vadd [1] (smul 1 (dotT 1 (butlast K') B23)) \<and>
      f_new = (\<lambda>t v. v) (0 + 1) y_new \<and> last K' = f_new \<and>
      err = smul 1 (dotT 1 K' E23))"
proof -
  have b: "buffer_ok (length B23 + 1) 1 [[0], [0], [0], [0]]"
    by (simp add: buffer_ok_def B23_def)
  have r: "rhs_ok 1 (\<lambda>t v. v)" by (simp add: rhs_ok_def)
  show ?thesis
    using rk_step_formulas[OF tableau_ok_23 b _ _ r, of "[1]" "[1]" 0 1] tableau_ok_23 b r
    by simp
qed

section \<open>Properties of the trial loop\<close>

lemma powr_neg_lt_one: "1 < (x::real) \<Longrightarrow> a < 0 \<Longrightarrow> x powr a < 1"
  using powr_less_mono2_neg[of a 1 x] by simp

lemma step_loop_induct [consumes 1, case_names accept reject]:
  assumes run: "step_loop sv d h_abs K cs = Some (Inr tr)"
    and accept: "\<And>h_abs K cs h1 t_new h y_new f_new err K1 cs1 en.
      clamp_trial (state_t (state sv)) (t_crit sv) (direction sv) d h_abs = (h1, t_new, h) \<Longrightarrow>
      rk_step (fun_rhs sv) (state_t (state sv)) (state_y (state sv)) (state_f (state sv)) h
        (coef_A sv) (coef_B sv) (coef_C sv) (coef_E sv) K = Inr (y_new, f_new, err, K1, cs1) \<Longrightarrow>
      scaled_error_norm (atol sv) (rtol sv) (state_y (state sv)) y_new err = Inr en \<Longrightarrow>
      \<not> xgt en 1 \<Longrightarrow>
      Q h_abs K cs \<lparr>trial_h_abs = h1, trial_h = h, trial_t_new = t_new,
                 trial_y_new = y_new, trial_f_new = f_new, trial_error_norm = en,
                 trial_K = K1, trial_calls = cs @ cs1\<rparr>"
    and reject: "\<And>h_abs K cs h1 t_new h y_new f_new err K1 cs1 en h2 tr.
      clamp_trial (state_t (state sv)) (t_crit sv) (direction sv) d h_abs = (h1, t_new, h) \<Longrightarrow>
      rk_step (fun_rhs sv) (state_t (state sv)) (state_y (state sv)) (state_f (state sv)) h
        (coef_A sv) (coef_B sv) (coef_C sv) (coef_E sv) K = Inr (y_new, f_new, err, K1, cs1) \<Longrightarrow>
      scaled_error_norm (atol sv) (rtol sv) (state_y (state sv)) y_new err = Inr en \<Longrightarrow>
      xgt en 1 \<Longrightarrow> shrink_step_size h1 en (order sv) = Inr h2 \<Longrightarrow>
      Q h2 K1 (cs @ cs1) tr \<Longrightarrow> Q h_abs K cs tr"
  shows "Q h_abs K cs tr"
proof -
  have "sv = sv \<longrightarrow> d = d \<longrightarrow> (\<forall>tr'. (Inr tr :: py_error + trial) = Inr tr' \<longrightarrow> Q h_abs K cs tr')"
  proof (rule step_loop.raw_induct[where P = "\<lambda>sv' d' h_abs K cs r.
        sv' = sv \<longrightarrow> d' = d \<longrightarrow> (\<forall>tr. r = Inr tr \<longrightarrow> Q h_abs K cs tr)", OF _ run], goal_cases)
    case (1 loop sv' d' h_abs K cs r)
    note IH = "1"(1) and body = "1"(2)
    show ?case
    proof (intro impI allI)
      fix tr assume sv': "sv' = sv" and d': "d' = d" and r: "r = Inr tr"
      obtain h1 t_new h where
        cl: "clamp_trial (state_t (state sv)) (t_crit sv) (direction sv) d h_abs = (h1, t_new, h)"
        using prod_cases3 by blast
      show "Q h_abs K cs tr"
      proof (cases "rk_step (fun_rhs sv) (state_t (state sv)) (state_y (state sv))
                  (state_f (state sv)) h (coef_A sv) (coef_B sv) (coef_C sv) (coef_E sv) K")
        case (Inl e)
        with body cl sv' d' r show ?thesis by auto
      next
        case (Inr res)
        obtain y_new f_new err K1 cs1 where res: "res = (y_new, f_new, err, K1, cs1)"
          using prod_cases5 by blast
        note rk = Inr[unfolded res]
        show ?thesis
        proof (cases "scaled_error_norm (atol sv) (rtol sv) (state_y (state sv)) y_new err")
          case (Inl e)
          with body cl rk sv' d' r show ?thesis by auto
        next
          case en: (Inr en)
          show ?thesis
          proof (cases "xgt en 1")
            case False
            with body cl rk en sv' d' r have
              "tr = \<lparr>trial_h_abs = h1, trial_h = h, trial_t_new = t_new,
                 trial_y_new = y_new, trial_f_new = f_new, trial_error_norm = en,
                 trial_K = K1, trial_calls = cs @ cs1\<rparr>" by auto
            with accept[OF cl rk en False] show ?thesis by simp
          next
            case True
            show ?thesis
            proof (cases "shrink_step_size h1 en (order sv)")
              case (Inl e)
              with body cl rk en True sv' d' r show ?thesis by auto
            next
              case h2: (Inr h2)
              with body cl rk en True sv' d' r have
                "loop sv d h2 K1 (cs @ cs1) = Some (Inr tr)" by auto
              from IH[OF this] have "Q h2 K1 (cs @ cs1) tr" by simp
              from reject[OF cl rk en True h2 this] show ?thesis .
            qed
          qed
        qed
      qed
    qed
  qed
  then show ?thesis by simp
qed

lemma trial_okI:
  assumes "step_loop sv d h_abs K cs = Some (Inr tr)"
  shows "trial_ok sv d tr"
  using assms
proof (induction rule: step_loop_induct)
  case (accept h_abs K cs h1 t_new h y_new f_new err K1 cs1 en)
  then show ?case unfolding trial_ok_def
    by (intro exI[of _ h_abs] exI[of _ K] exI[of _ err] exI[of _ cs1]) simp
next
  case (reject h_abs K cs h1 t_new h y_new f_new err K1 cs1 en h2 tr)
  then show ?case by simp
qed

lemma step_loop_rejects:
  assumes "clamp_trial (state_t (state sv)) (t_crit sv) (direction sv) d h_abs = (h1, t_new, h)"
    and "rk_step (fun_rhs sv) (state_t (state sv)) (state_y (state sv)) (state_f (state sv)) h
        (coef_A sv) (coef_B sv) (coef_C sv) (coef_E sv) K = Inr (y_new, f_new, err, K1, cs1)"
    and "scaled_error_norm (atol sv) (rtol sv) (state_y (state sv)) y_new err = Inr en"
    and "xgt en 1" and "shrink_step_size h1 en (order sv) = Inr h2"
  shows "step_loop sv d h_abs K cs = step_loop sv d h2 K1 (cs @ cs1)"
  by (subst step_loop.simps) (simp add: assms)

lemma step_loop_accepts:
  assumes "clamp_trial (state_t (state sv)) (t_crit sv) (direction sv) d h_abs = (h1, t_new, h)"
    and "rk_step (fun_rhs sv) (state_t (state sv)) (state_y (state sv)) (state_f (state sv)) h
        (coef_A sv) (coef_B sv) (coef_C sv) (coef_E sv) K = Inr (y_new, f_new, err, K1, cs1)"
    and "scaled_error_norm (atol sv) (rtol sv) (state_y (state sv)) y_new err = Inr en"
    and "\<not> xgt en 1"
  shows "step_loop sv d h_abs K cs =
    Some (Inr \<lparr>trial_h_abs = h1, trial_h = h, trial_t_new = t_new, trial_y_new = y_new,
               trial_f_new = f_new, trial_error_norm = en, trial_K = K1,
               trial_calls = cs @ cs1\<rparr>)"
  by (subst step_loop.simps) (simp add: assms)

lemma step_runD:
  assumes "status sv = Running \<or> status sv = Started"
    and "step sv = Some (Inr (sv', calls))"
  shows "\<exists>tr h_abs ym.
      step_loop sv \<bar>t_crit sv - state_t (state sv)\<bar> (step_size sv) (stage_K sv) [] =
        Some (Inr tr) \<and>
      grow_step_size (trial_h_abs tr) (trial_error_norm tr) (order sv) = Inr h_abs \<and>
      midpoint (coef_M sv) (state_y (state sv)) (trial_h tr) (trial_K tr) = Inr ym \<and>
      sv' = sv\<lparr>state := \<lparr>state_t = trial_t_new tr, state_y = trial_y_new tr,
                         state_f = fun_rhs sv (trial_t_new tr) (trial_y_new tr),
                         state_ym = ym\<rparr>,
               stage_K := trial_K tr,
               step_size := xmin h_abs (max_step sv),
               status := new_status (trial_t_new tr) (t_crit sv) (state_t (state sv))\<rparr> \<and>
      calls = trial_calls tr @ [(trial_t_new tr, trial_y_new tr)]"
  using assms
  by (auto simp: step_def split: option.splits sum.splits)

lemma step_runI:
  assumes "status sv = Running \<or> status sv = Started"
    and "step_loop sv \<bar>t_crit sv - state_t (state sv)\<bar> (step_size sv) (stage_K sv) [] =
        Some (Inr tr)"
    and "grow_step_size (trial_h_abs tr) (trial_error_norm tr) (order sv) = Inr h_abs"
    and "midpoint (coef_M sv) (state_y (state sv)) (trial_h tr) (trial_K tr) = Inr ym"
  shows "step sv = Some (Inr (sv\<lparr>state := \<lparr>state_t = trial_t_new tr, state_y = trial_y_new tr,
                         state_f = fun_rhs sv (trial_t_new tr) (trial_y_new tr),
                         state_ym = ym\<rparr>,
               stage_K := trial_K tr,
               step_size := xmin h_abs (max_step sv),
               status := new_status (trial_t_new tr) (t_crit sv) (state_t (state sv))\<rparr>,
             trial_calls tr @ [(trial_t_new tr, trial_y_new tr)]))"
  using assms by (auto simp: step_def)

lemma shrink_factor_bounds:
  assumes "xgt en 1" and "ex < 0"
  shows "\<exists>c. shrink_factor en ex = Fin c \<and> MIN_FACTOR \<le> c \<and> c < 1"
proof (cases en)
  case (Fin v)
  with assms(1) have v: "1 < v" by (simp add: xgt_def)
  then have "v powr ex < 1" using assms(2) by (rule powr_neg_lt_one)
  then have "max MIN_FACTOR (SAFETY * v powr ex) < 1"
    by (simp add: MIN_FACTOR_def SAFETY_def)
  then show ?thesis using v
    by (simp add: shrink_factor_def np_power_def times_SAFETY_def Fin)
next
  case PInf
  with assms(2) have "shrink_factor en ex = Fin MIN_FACTOR"
    by (simp add: shrink_factor_def np_power_def times_SAFETY_def MIN_FACTOR_def)
  moreover have "MIN_FACTOR < 1" by (simp add: MIN_FACTOR_def)
  ultimately show ?thesis by simp
next
  case NaN
  with assms(1) show ?thesis by (simp add: xgt_def)
qed

lemma growth_factor_bounds: "1 \<le> growth_factor en ex \<and> growth_factor en ex \<le> MAX_FACTOR"
  by (cases "times_SAFETY (np_power en ex)") (simp_all add: growth_factor_def MAX_FACTOR_def)

lemma neg_inv_order_pos: "0 < ord \<Longrightarrow> neg_inv_order ord = Inr (- 1 / real_of_int ord)"
  by (simp add: neg_inv_order_def)

lemma neg_inv_order_neg: "neg_inv_order ord = Inr ex \<Longrightarrow> 0 < ord \<Longrightarrow> ex < 0"
  by (auto simp: neg_inv_order_def split: if_splits)

lemma shrink_step_size_bounds:
  assumes "xgt en 1" and "0 < ord"
  shows "\<exists>c. shrink_step_size h en ord = Inr (h * c) \<and> MIN_FACTOR \<le> c \<and> c < 1"
proof -
  have "- 1 / real_of_int ord < 0" using assms(2) by simp
  from shrink_factor_bounds[OF assms(1) this] obtain c where
    "shrink_factor en (- 1 / real_of_int ord) = Fin c" "MIN_FACTOR \<le> c" "c < 1" by blast
  then show ?thesis using assms(2)
    by (intro exI[of _ c]) (simp add: shrink_step_size_def neg_inv_order_def)
qed

lemma clamp_trial_min:
  assumes "clamp_trial t b s d h_abs = (h1, t_new, h)"
  shows "h1 = min h_abs d"
  using assms by (auto simp: clamp_trial_def split: if_splits)

lemma clamp_trial_bounds:
  assumes "clamp_trial t b s d h_abs = (h1, t_new, h)" "0 \<le> d" "0 \<le> h_abs"
  shows "0 \<le> h1 \<and> h1 \<le> h_abs"
  using assms by (auto simp: clamp_trial_def split: if_splits)

lemma accepted_h_abs_bounds:
  assumes "step_loop sv d h_abs K cs = Some (Inr tr)" and "0 < order sv" and "0 \<le> d"
  shows "0 \<le> h_abs \<longrightarrow> 0 \<le> trial_h_abs tr \<and> trial_h_abs tr \<le> h_abs"
  using assms(1)
proof (induction rule: step_loop_induct)
  case (accept h_abs K cs h1 t_new h y_new f_new err K1 cs1 en)
  then show ?case using clamp_trial_bounds[OF accept(1) assms(3)] by simp
next
  case (reject h_abs K cs h1 t_new h y_new f_new err K1 cs1 en h2 tr)
  show ?case
  proof
    assume h0: "0 \<le> h_abs"
    from clamp_trial_bounds[OF reject(1) assms(3) h0] have h1: "0 \<le> h1" "h1 \<le> h_abs" by simp_all
    from shrink_step_size_bounds[OF reject(4) assms(2), of h1] reject(5) obtain c where
      c: "h2 = h1 * c" "MIN_FACTOR \<le> c" "c < 1" by auto
    then have sf: "0 \<le> c" "c \<le> 1" by (simp_all add: MIN_FACTOR_def)
    have "0 \<le> h2" using h1 sf c(1) by simp
    moreover have "h2 \<le> h1" using h1 sf c(1) by (simp add: mult_left_le)
    ultimately show "0 \<le> trial_h_abs tr \<and> trial_h_abs tr \<le> h_abs"
      using reject(6) h1 by simp
  qed
qed

lemma norm_rms_single: "norm_rms [Fin x] = Fin \<bar>x\<bar>"
  by (simp add: norm_rms_def)






section \<open>The run with one rejection, evaluated\<close>

lemma shrink_factor_min:
  assumes "59049 / 32 \<le> en"
  shows "shrink_factor (Fin en) (- 1 / 5) = Fin MIN_FACTOR"
proof -
  have "((9 / 2 :: real) ^ 5) powr (- 1 / 5) = ((9 / 2) powr (real 5)) powr (- 1 / 5)"
    by (subst powr_realpow) simp_all
  also have "\<dots> = (9 / 2) powr (real 5 * (- 1 / 5))" by (rule powr_powr)
  also have "\<dots> = (9 / 2) powr (- 1)" by simp
  also have "\<dots> = 2 / 9" by (simp add: powr_minus_divide)
  finally have e: "((9 / 2 :: real) ^ 5) powr (- 1 / 5) = 2 / 9" .
  have p: "(59049 / 32 :: real) = (9 / 2) ^ 5" by (simp add: power_divide)
  have "en powr (- 1 / 5) \<le> (59049 / 32) powr (- 1 / 5)"
    using assms by (intro powr_mono2') simp_all
  also have "\<dots> = 2 / 9" unfolding p by (rule e)
  finally have "SAFETY * en powr (- 1 / 5) \<le> MIN_FACTOR"
    by (simp add: SAFETY_def MIN_FACTOR_def)
  moreover have "en \<noteq> 0" using assms by auto
  ultimately show ?thesis
    by (simp add: shrink_factor_def np_power_def times_SAFETY_def)
qed

lemma shrink_step_size_min:
  assumes "59049 / 32 \<le> en"
  shows "shrink_step_size h (Fin en) 5 = Inr (h * MIN_FACTOR)"
  using shrink_factor_min[OF assms] by (simp add: shrink_step_size_def neg_inv_order_def)

lemma jump_rk1:
  "rk_step jump_rhs 0 [0] [1] 1 A45 B45 C45 E45 (replicate 7 [0]) =
     Inr ([21851995 / 47488], [1000], [- 7163829 / 2374400],
          [[1], [1], [1], [1000], [1000], [1000], [1000]], take 6 jump_calls)"
  by (simp add: vec_eval tab45 jump_rhs_def jump_calls_def)

lemma jump_en1:
  "scaled_error_norm [1 / 100000] (1 / 1000000) [0] [21851995 / 47488] [- 7163829 / 2374400] =
     Inr (Fin (229242528 / 35723))"
  by (simp add: scaled_error_norm_def error_scale_def np_divide_def norm_rms_single vadd_def
      smulr_def)

lemma jump_rk2:
  "rk_step jump_rhs 0 [0] [1] (1 / 5) A45 B45 C45 E45
       [[1], [1], [1], [1000], [1000], [1000], [1000]] =
     Inr ([1 / 5], [1], [0], replicate 7 [1], take 6 (drop 6 jump_calls))"
  by (simp add: vec_eval tab45 jump_rhs_def jump_calls_def)

lemma jump_en2:
  "scaled_error_norm [1 / 100000] (1 / 1000000) [0] [1 / 5] [0] = Inr (Fin 0)"
  by (simp add: scaled_error_norm_def error_scale_def np_divide_def norm_rms_single vadd_def
      smulr_def)

lemma jump_shrink: "shrink_step_size 1 (Fin (229242528 / 35723)) (order jump_solver) = Inr (1 / 5)"
  using shrink_step_size_min[of "229242528 / 35723" 1]
  by (simp add: MIN_FACTOR_def jump_solver_def)

lemma jump_loop: "step_loop jump_solver 10 1 (replicate 7 [0]) [] = Some (Inr jump_trial)"
proof -
  have c1: "clamp_trial (state_t (state jump_solver)) (t_crit jump_solver)
      (direction jump_solver) 10 1 = (1, 1, 1)"
    by (simp add: clamp_trial_def jump_solver_def)
  have r1: "rk_step (fun_rhs jump_solver) (state_t (state jump_solver))
      (state_y (state jump_solver)) (state_f (state jump_solver)) 1 (coef_A jump_solver)
      (coef_B jump_solver) (coef_C jump_solver) (coef_E jump_solver) (replicate 7 [0]) =
      Inr ([21851995 / 47488], [1000], [- 7163829 / 2374400],
          [[1], [1], [1], [1000], [1000], [1000], [1000]], take 6 jump_calls)"
    using jump_rk1 by (simp add: jump_solver_def)
  have e1: "scaled_error_norm (atol jump_solver) (rtol jump_solver)
      (state_y (state jump_solver)) [21851995 / 47488] [- 7163829 / 2374400] =
      Inr (Fin (229242528 / 35723))"
    using jump_en1 by (simp add: jump_solver_def)
  have c2: "clamp_trial (state_t (state jump_solver)) (t_crit jump_solver)
      (direction jump_solver) 10 (1 / 5) = (1 / 5, 1 / 5, 1 / 5)"
    by (simp add: clamp_trial_def jump_solver_def)
  have r2: "rk_step (fun_rhs jump_solver) (state_t (state jump_solver))
      (state_y (state jump_solver)) (state_f (state jump_solver)) (1 / 5) (coef_A jump_solver)
      (coef_B jump_solver) (coef_C jump_solver) (coef_E jump_solver)
      [[1], [1], [1], [1000], [1000], [1000], [1000]] =
      Inr ([1 / 5], [1], [0], replicate 7 [1], take 6 (drop 6 jump_calls))"
    using jump_rk2 by (simp add: jump_solver_def)
  have e2: "scaled_error_norm (atol jump_solver) (rtol jump_solver)
      (state_y (state jump_solver)) [1 / 5] [0] = Inr (Fin 0)"
    using jump_en2 by (simp add: jump_solver_def)
  have "step_loop jump_solver 10 1 (replicate 7 [0]) [] =
      step_loop jump_solver 10 (1 / 5)
        [[1], [1], [1], [1000], [1000], [1000], [1000]] ([] @ take 6 jump_calls)"
    by (rule step_loop_rejects[OF c1 r1 e1 _ jump_shrink]) (simp add: xgt_def)
  also have "\<dots> = Some (Inr \<lparr>trial_h_abs = 1 / 5, trial_h = 1 / 5, trial_t_new = 1 / 5,
      trial_y_new = [1 / 5], trial_f_new = [1], trial_error_norm = Fin 0,
      trial_K = replicate 7 [1],
      trial_calls = ([] @ take 6 jump_calls) @ take 6 (drop 6 jump_calls)\<rparr>)"
    by (rule step_loop_accepts[OF c2 r2 e2]) (simp add: xgt_def)
  also have "\<dots> = Some (Inr jump_trial)"
    by (simp add: jump_trial_def jump_calls_def)
  finally show ?thesis .
qed

lemma jump_step: "step jump_solver = Some (Inr (jump_solver_after, jump_calls))"
proof -
  have st: "status jump_solver = Running \<or> status jump_solver = Started"
    by (simp add: jump_solver_def)
  have l: "step_loop jump_solver \<bar>t_crit jump_solver - state_t (state jump_solver)\<bar>
      (step_size jump_solver) (stage_K jump_solver) [] = Some (Inr jump_trial)"
    using jump_loop by (simp add: jump_solver_def)
  have g: "grow_step_size (trial_h_abs jump_trial) (trial_error_norm jump_trial)
      (order jump_solver) = Inr 1"
    by (simp add: grow_step_size_def neg_inv_order_def growth_factor_def np_power_def
        times_SAFETY_def SAFETY_def MAX_FACTOR_def jump_trial_def jump_solver_def)
  have m: "midpoint (coef_M jump_solver) (state_y (state jump_solver)) (trial_h jump_trial)
      (trial_K jump_trial) = Inr (Some [1 / 10])"
    by (simp add: midpoint_def jump_solver_def jump_trial_def tab45 ncols_def dotT_def
        smul_def vadd_def numeral_eq_Suc)
  show ?thesis
    unfolding step_runI[OF st l g m]
    by (simp add: jump_solver_def jump_solver_after_def jump_trial_def new_status_def
        jump_rhs_def jump_calls_def)
qed

lemma jump_solver_ok: "solver_ok 1 jump_solver"
  using tableau_ok_45
  by (simp add: solver_ok_def jump_solver_def buffer_ok_def rhs_ok_def jump_rhs_def tab45)

lemma jump_running: "status jump_solver = Running \<or> status jump_solver = Started"
  by (simp add: jump_solver_def)




lemma jump_trial_loop:
  "step_loop jump_solver \<bar>t_crit jump_solver - state_t (state jump_solver)\<bar>
      (step_size jump_solver) (stage_K jump_solver) [] = Some (Inr jump_trial)"
  using jump_loop by (simp add: jump_solver_def)

section \<open>The run clamped to the boundary, evaluated\<close>

lemma near_rk1:
  "rk_step jump_rhs 0 [0] [1] (3 / 4) A45 B45 C45 E45 (replicate 7 [0]) =
     Inr ([65555985 / 189952], [1000], [- 21491487 / 9497600],
          [[1], [1], [1], [1000], [1000], [1000], [1000]], take 6 near_calls)"
  by (simp add: vec_eval tab45 jump_rhs_def near_calls_def)

lemma near_en1:
  "scaled_error_norm [1 / 100000] (1 / 1000000) [0] [65555985 / 189952]
       [- 21491487 / 9497600] =
     Inr (Fin (85965948000 / 13491101))"
  by (simp add: scaled_error_norm_def error_scale_def np_divide_def norm_rms_single vadd_def
      smulr_def)

lemma near_rk2:
  "rk_step jump_rhs 0 [0] [1] (3 / 20) A45 B45 C45 E45
       [[1], [1], [1], [1000], [1000], [1000], [1000]] =
     Inr ([3 / 20], [1], [0], replicate 7 [1], take 6 (drop 6 near_calls))"
  by (simp add: vec_eval tab45 jump_rhs_def near_calls_def)

lemma near_en2:
  "scaled_error_norm [1 / 100000] (1 / 1000000) [0] [3 / 20] [0] = Inr (Fin 0)"
  by (simp add: scaled_error_norm_def error_scale_def np_divide_def norm_rms_single vadd_def
      smulr_def)

lemma near_running: "status near_solver = Running \<or> status near_solver = Started"
  by (simp add: near_solver_def jump_solver_def)

lemma near_first_clamp:
  "clamp_trial (state_t (state near_solver)) (t_crit near_solver) (direction near_solver)
      \<bar>t_crit near_solver - state_t (state near_solver)\<bar> (step_size near_solver) =
     (3 / 4, 3 / 4, 3 / 4)"
  by (simp add: clamp_trial_def near_solver_def jump_solver_def)

lemma near_first_rk:
  "rk_step (fun_rhs near_solver) (state_t (state near_solver)) (state_y (state near_solver))
      (state_f (state near_solver)) (3 / 4) (coef_A near_solver) (coef_B near_solver)
      (coef_C near_solver) (coef_E near_solver) (stage_K near_solver) =
     Inr ([65555985 / 189952], [1000], [- 21491487 / 9497600],
          [[1], [1], [1], [1000], [1000], [1000], [1000]], take 6 near_calls)"
  using near_rk1 by (simp add: near_solver_def jump_solver_def)

lemma near_first_norm:
  "scaled_error_norm (atol near_solver) (rtol near_solver) (state_y (state near_solver))
      [65555985 / 189952] [- 21491487 / 9497600] = Inr (Fin (85965948000 / 13491101))"
  using near_en1 by (simp add: near_solver_def jump_solver_def)

lemma near_above_1: "xgt (Fin (85965948000 / 13491101)) 1"
  by (simp add: xgt_def)

lemma near_shrink:
  "shrink_step_size (3 / 4) (Fin (85965948000 / 13491101)) (order near_solver) = Inr (3 / 20)"
  using shrink_step_size_min[of "85965948000 / 13491101" "3 / 4"]
  by (simp add: MIN_FACTOR_def near_solver_def jump_solver_def)

lemma near_trial_loop:
  "step_loop near_solver \<bar>t_crit near_solver - state_t (state near_solver)\<bar>
      (step_size near_solver) (stage_K near_solver) [] = Some (Inr near_trial)"
proof -
  have c2: "clamp_trial (state_t (state near_solver)) (t_crit near_solver)
      (direction near_solver) \<bar>t_crit near_solver - state_t (state near_solver)\<bar> (3 / 20) =
      (3 / 20, 3 / 20, 3 / 20)"
    by (simp add: clamp_trial_def near_solver_def jump_solver_def)
  have r2: "rk_step (fun_rhs near_solver) (state_t (state near_solver))
      (state_y (state near_solver)) (state_f (state near_solver)) (3 / 20) (coef_A near_solver)
      (coef_B near_solver) (coef_C near_solver) (coef_E near_solver)
      [[1], [1], [1], [1000], [1000], [1000], [1000]] =
      Inr ([3 / 20], [1], [0], replicate 7 [1], take 6 (drop 6 near_calls))"
    using near_rk2 by (simp add: near_solver_def jump_solver_def)
  have e2: "scaled_error_norm (atol near_solver) (rtol near_solver)
      (state_y (state near_solver)) [3 / 20] [0] = Inr (Fin 0)"
    using near_en2 by (simp add: near_solver_def jump_solver_def)
  have "step_loop near_solver \<bar>t_crit near_solver - state_t (state near_solver)\<bar>
      (step_size near_solver) (stage_K near_solver) [] =
      step_loop near_solver \<bar>t_crit near_solver - state_t (state near_solver)\<bar> (3 / 20)
        [[1], [1], [1], [1000], [1000], [1000], [1000]] ([] @ take 6 near_calls)"
    by (rule step_loop_rejects[OF near_first_clamp near_first_rk near_first_norm near_above_1
          near_shrink])
  also have "\<dots> = Some (Inr \<lparr>trial_h_abs = 3 / 20, trial_h = 3 / 20, trial_t_new = 3 / 20,
      trial_y_new = [3 / 20], trial_f_new = [1], trial_error_norm = Fin 0,
      trial_K = replicate 7 [1],
      trial_calls = ([] @ take 6 near_calls) @ take 6 (drop 6 near_calls)\<rparr>)"
    by (rule step_loop_accepts[OF c2 r2 e2]) (simp add: xgt_def)
  also have "\<dots> = Some (Inr near_trial)"
    by (simp add: near_trial_def near_calls_def)
  finally show ?thesis .
qed

lemma near_step: "step near_solver = Some (Inr (near_solver_after, near_calls))"
proof -
  have g: "grow_step_size (trial_h_abs near_trial) (trial_error_norm near_trial)
      (order near_solver) = Inr (3 / 4)"
    by (simp add: grow_step_size_def neg_inv_order_def growth_factor_def np_power_def
        times_SAFETY_def SAFETY_def MAX_FACTOR_def near_trial_def near_solver_def
        jump_solver_def)
  have m: "midpoint (coef_M near_solver) (state_y (state near_solver)) (trial_h near_trial)
      (trial_K near_trial) = Inr (Some [3 / 40])"
    by (simp add: midpoint_def near_solver_def jump_solver_def near_trial_def tab45 ncols_def
        dotT_def smul_def vadd_def numeral_eq_Suc)
  show ?thesis
    unfolding step_runI[OF near_running near_trial_loop g m]
    by (simp add: near_solver_def jump_solver_def near_solver_after_def near_trial_def
        new_status_def jump_rhs_def near_calls_def)
qed

section \<open>The run capped by the largest step size, evaluated\<close>

lemma capped_rk:
  "rk_step jump_rhs 0 [0] [1] (1 / 5) A45 B45 C45 E45 (replicate 7 [0]) =
     Inr ([1 / 5], [1], [0], replicate 7 [1], take 6 capped_calls)"
  by (simp add: vec_eval tab45 jump_rhs_def capped_calls_def)

lemma capped_running: "status capped_solver = Running \<or> status capped_solver = Started"
  by (simp add: capped_solver_def jump_solver_def)

lemma capped_trial_loop:
  "step_loop capped_solver \<bar>t_crit capped_solver - state_t (state capped_solver)\<bar>
      (step_size capped_solver) (stage_K capped_solver) [] = Some (Inr capped_trial)"
proof -
  have c: "clamp_trial (state_t (state capped_solver)) (t_crit capped_solver)
      (direction capped_solver) \<bar>t_crit capped_solver - state_t (state capped_solver)\<bar>
      (step_size capped_solver) = (1 / 5, 1 / 5, 1 / 5)"
    by (simp add: clamp_trial_def capped_solver_def jump_solver_def)
  have r: "rk_step (fun_rhs capped_solver) (state_t (state capped_solver))
      (state_y (state capped_solver)) (state_f (state capped_solver)) (1 / 5)
      (coef_A capped_solver) (coef_B capped_solver) (coef_C capped_solver)
      (coef_E capped_solver) (stage_K capped_solver) =
      Inr ([1 / 5], [1], [0], replicate 7 [1], take 6 capped_calls)"
    using capped_rk by (simp add: capped_solver_def jump_solver_def)
  have e: "scaled_error_norm (atol capped_solver) (rtol capped_solver)
      (state_y (state capped_solver)) [1 / 5] [0] = Inr (Fin 0)"
    using jump_en2 by (simp add: capped_solver_def jump_solver_def)
  have "step_loop capped_solver \<bar>t_crit capped_solver - state_t (state capped_solver)\<bar>
      (step_size capped_solver) (stage_K capped_solver) [] =
      Some (Inr \<lparr>trial_h_abs = 1 / 5, trial_h = 1 / 5, trial_t_new = 1 / 5,
      trial_y_new = [1 / 5], trial_f_new = [1], trial_error_norm = Fin 0,
      trial_K = replicate 7 [1], trial_calls = [] @ take 6 capped_calls\<rparr>)"
    by (rule step_loop_accepts[OF c r e]) (simp add: xgt_def)
  also have "\<dots> = Some (Inr capped_trial)"
    by (simp add: capped_trial_def capped_calls_def)
  finally show ?thesis .
qed

lemma capped_step: "step capped_solver = Some (Inr (capped_solver_after, capped_calls))"
proof -
  have g: "grow_step_size (trial_h_abs capped_trial) (trial_error_norm capped_trial)
      (order capped_solver) = Inr 1"
    by (simp add: grow_step_size_def neg_inv_order_def growth_factor_def np_power_def
        times_SAFETY_def SAFETY_def MAX_FACTOR_def capped_trial_def capped_solver_def
        jump_solver_def)
  have m: "midpoint (coef_M capped_solver) (state_y (state capped_solver))
      (trial_h capped_trial) (trial_K capped_trial) = Inr (Some [1 / 10])"
    by (simp add: midpoint_def capped_solver_def jump_solver_def capped_trial_def tab45
        ncols_def dotT_def smul_def vadd_def numeral_eq_Suc)
  show ?thesis
    unfolding step_runI[OF capped_running capped_trial_loop g m]
    by (simp add: capped_solver_def jump_solver_def capped_solver_after_def capped_trial_def
        new_status_def jump_rhs_def capped_calls_def)
qed

section \<open>The run with a zero error scale, evaluated\<close>







lemmas tab23 = A23_def B23_def C23_def E23_def

lemma spike_rk1:
  "rk_step spike_rhs 0 [0] [0] 1 A23 B23 C23 E23 (replicate 4 [0]) =
     Inr ([0], [8], [1], [[0], [4], [- 3], [8]], take 3 spike_calls)"
  by (simp add: vec_eval tab23 spike_rhs_def spike_calls_def)

lemma spike_en1: "scaled_error_norm [0] (1 / 1000) [0] [0] [1] = Inr PInf"
  by (simp add: scaled_error_norm_def error_scale_def np_divide_def norm_rms_def vadd_def
      smulr_def)

lemma spike_rk2:
  "rk_step spike_rhs 0 [0] [0] (1 / 5) A23 B23 C23 E23 [[0], [4], [- 3], [8]] =
     Inr ([0], [0], [0], replicate 4 [0], take 3 (drop 3 spike_calls))"
  by (simp add: vec_eval tab23 spike_rhs_def spike_calls_def)

lemma spike_en2: "scaled_error_norm [0] (1 / 1000) [0] [0] [0] = Inr NaN"
  by (simp add: scaled_error_norm_def error_scale_def np_divide_def norm_rms_def vadd_def
      smulr_def)

lemma spike_running: "status spike_solver = Running \<or> status spike_solver = Started"
  by (simp add: spike_solver_def)

lemma spike_first_clamp:
  "clamp_trial (state_t (state spike_solver)) (t_crit spike_solver) (direction spike_solver)
      \<bar>t_crit spike_solver - state_t (state spike_solver)\<bar> (step_size spike_solver) =
     (1, 1, 1)"
  by (simp add: clamp_trial_def spike_solver_def)

lemma spike_first_rk:
  "rk_step (fun_rhs spike_solver) (state_t (state spike_solver))
      (state_y (state spike_solver)) (state_f (state spike_solver)) 1 (coef_A spike_solver)
      (coef_B spike_solver) (coef_C spike_solver) (coef_E spike_solver)
      (stage_K spike_solver) =
     Inr ([0], [8], [1], [[0], [4], [- 3], [8]], take 3 spike_calls)"
  using spike_rk1 by (simp add: spike_solver_def)

lemma spike_first_norm:
  "scaled_error_norm (atol spike_solver) (rtol spike_solver) (state_y (state spike_solver))
      [0] [1] = Inr PInf"
  using spike_en1 by (simp add: spike_solver_def)

lemma spike_shrink: "shrink_step_size 1 PInf (order spike_solver) = Inr (1 / 5)"
  by (simp add: shrink_step_size_def neg_inv_order_def shrink_factor_def np_power_def
      times_SAFETY_def MIN_FACTOR_def spike_solver_def)

lemma spike_trial_loop:
  "step_loop spike_solver \<bar>t_crit spike_solver - state_t (state spike_solver)\<bar>
      (step_size spike_solver) (stage_K spike_solver) [] = Some (Inr spike_trial)"
proof -
  have c2: "clamp_trial (state_t (state spike_solver)) (t_crit spike_solver)
      (direction spike_solver) \<bar>t_crit spike_solver - state_t (state spike_solver)\<bar> (1 / 5) =
      (1 / 5, 1 / 5, 1 / 5)"
    by (simp add: clamp_trial_def spike_solver_def)
  have r2: "rk_step (fun_rhs spike_solver) (state_t (state spike_solver))
      (state_y (state spike_solver)) (state_f (state spike_solver)) (1 / 5)
      (coef_A spike_solver) (coef_B spike_solver) (coef_C spike_solver)
      (coef_E spike_solver) [[0], [4], [- 3], [8]] =
      Inr ([0], [0], [0], replicate 4 [0], take 3 (drop 3 spike_calls))"
    using spike_rk2 by (simp add: spike_solver_def)
  have e2: "scaled_error_norm (atol spike_solver) (rtol spike_solver)
      (state_y (state spike_solver)) [0] [0] = Inr NaN"
    using spike_en2 by (simp add: spike_solver_def)
  have "step_loop spike_solver \<bar>t_crit spike_solver - state_t (state spike_solver)\<bar>
      (step_size spike_solver) (stage_K spike_solver) [] =
      step_loop spike_solver \<bar>t_crit spike_solver - state_t (state spike_solver)\<bar> (1 / 5)
        [[0], [4], [- 3], [8]] ([] @ take 3 spike_calls)"
    by (rule step_loop_rejects[OF spike_first_clamp spike_first_rk spike_first_norm _
          spike_shrink]) (simp add: xgt_def)
  also have "\<dots> = Some (Inr \<lparr>trial_h_abs = 1 / 5, trial_h = 1 / 5, trial_t_new = 1 / 5,
      trial_y_new = [0], trial_f_new = [0], trial_error_norm = NaN,
      trial_K = replicate 4 [0],
      trial_calls = ([] @ take 3 spike_calls) @ take 3 (drop 3 spike_calls)\<rparr>)"
    by (rule step_loop_accepts[OF c2 r2 e2]) (simp add: xgt_def)
  also have "\<dots> = Some (Inr spike_trial)"
    by (simp add: spike_trial_def spike_calls_def)
  finally show ?thesis .
qed

lemma spike_step: "step spike_solver = Some (Inr (spike_solver_after, spike_calls))"
proof -
  have g: "grow_step_size (trial_h_abs spike_trial) (trial_error_norm spike_trial)
      (order spike_solver) = Inr (1 / 5)"
    by (simp add: grow_step_size_def neg_inv_order_def growth_factor_def np_power_def
        times_SAFETY_def SAFETY_def MAX_FACTOR_def spike_trial_def spike_solver_def)
  have m: "midpoint (coef_M spike_solver) (state_y (state spike_solver))
      (trial_h spike_trial) (trial_K spike_trial) = Inr None"
    by (simp add: midpoint_def spike_solver_def)
  show ?thesis
    unfolding step_runI[OF spike_running spike_trial_loop g m]
    by (simp add: spike_solver_def spike_solver_after_def spike_trial_def
        new_status_def spike_rhs_def spike_calls_def)
qed

section \<open>The claims about the stepper\<close>






text \<open>
  Claim C5, amended. For a solver of positive order and a step size that is not negative, the
  step size stored by an accepted step is at most \<open>previous_h * MAX_FACTOR\<close> and at most
  \<^verbatim>\<open>max_step\<close>; the growth factor lies between 1 and \<open>MAX_FACTOR\<close>, so the growth
  formula does not shrink a step; and one rejection takes the trial to no less than
  \<open>MIN_FACTOR\<close> times the magnitude of the rejected trial, which is
  \<open>min(h_abs, |boundary - t|)\<close>, not the step size \<open>h_abs\<close> the trial started from: when
  the boundary is nearer than the stored step size, the trial after one rejection can be
  below \<open>previous_h * MIN_FACTOR\<close>.
\<close>

theorem step_size_bounds_of_trial:
  "((status sv = Running \<or> status sv = Started) \<and> step sv = Some (Inr (sv', calls)) \<and>
    0 < order sv \<and> 0 \<le> step_size sv \<longrightarrow>
      step_size sv' \<le> step_size sv * MAX_FACTOR \<and>
      (case max_step sv of Fin m \<Rightarrow> step_size sv' \<le> m | PInf \<Rightarrow> True | NaN \<Rightarrow> True)) \<and>
   1 \<le> growth_factor en0 ex \<and> growth_factor en0 ex \<le> MAX_FACTOR \<and>
   (ord \<noteq> 0 \<and> 0 \<le> h0 \<longrightarrow>
      (\<exists>h3. grow_step_size h0 en0 ord = Inr h3 \<and> h0 \<le> h3 \<and> h3 \<le> h0 * MAX_FACTOR)) \<and>
   (clamp_trial (state_t (state sv)) (t_crit sv) (direction sv) d h_abs = (h1, t_new, h) \<and>
    rk_step (fun_rhs sv) (state_t (state sv)) (state_y (state sv)) (state_f (state sv)) h
      (coef_A sv) (coef_B sv) (coef_C sv) (coef_E sv) K = Inr (y_new, f_new, err, K1, cs1) \<and>
    scaled_error_norm (atol sv) (rtol sv) (state_y (state sv)) y_new err = Inr en \<and>
    xgt en 1 \<and> 0 < order sv \<and> 0 \<le> d \<and> 0 \<le> h_abs \<longrightarrow>
      (\<exists>h2. shrink_step_size h1 en (order sv) = Inr h2 \<and>
         step_loop sv d h_abs K cs = step_loop sv d h2 K1 (cs @ cs1) \<and>
         h1 = min h_abs d \<and> min h_abs d * MIN_FACTOR \<le> h2 \<and> h2 \<le> min h_abs d))"
proof (intro conjI impI)
  assume a: "(status sv = Running \<or> status sv = Started) \<and> step sv = Some (Inr (sv', calls)) \<and>
    0 < order sv \<and> 0 \<le> step_size sv"
  from step_runD[of sv sv' calls] a obtain tr h_abs ym where
    run: "step_loop sv \<bar>t_crit sv - state_t (state sv)\<bar> (step_size sv) (stage_K sv) [] =
        Some (Inr tr)"
    and gr: "grow_step_size (trial_h_abs tr) (trial_error_norm tr) (order sv) = Inr h_abs"
    and sv': "sv' = sv\<lparr>state := \<lparr>state_t = trial_t_new tr, state_y = trial_y_new tr,
                         state_f = fun_rhs sv (trial_t_new tr) (trial_y_new tr),
                         state_ym = ym\<rparr>,
               stage_K := trial_K tr,
               step_size := xmin h_abs (max_step sv),
               status := new_status (trial_t_new tr) (t_crit sv) (state_t (state sv))\<rparr>"
    by blast
  from accepted_h_abs_bounds[OF run] a have
    hb: "0 \<le> trial_h_abs tr" "trial_h_abs tr \<le> step_size sv" by simp_all
  from gr a have "h_abs = trial_h_abs tr *
      growth_factor (trial_error_norm tr) (- 1 / real_of_int (order sv))"
    by (simp add: grow_step_size_def neg_inv_order_pos)
  moreover have "trial_h_abs tr *
      growth_factor (trial_error_norm tr) (- 1 / real_of_int (order sv)) \<le>
      step_size sv * MAX_FACTOR"
    using hb growth_factor_bounds[of "trial_error_norm tr" "- 1 / real_of_int (order sv)"]
    by (intro mult_mono) (simp_all add: MAX_FACTOR_def)
  ultimately have h: "h_abs \<le> step_size sv * MAX_FACTOR" by simp
  have s: "step_size sv' = xmin h_abs (max_step sv)" by (simp add: sv')
  show "step_size sv' \<le> step_size sv * MAX_FACTOR"
    unfolding s using h by (cases "max_step sv") simp_all
  show "case max_step sv of Fin m \<Rightarrow> step_size sv' \<le> m | PInf \<Rightarrow> True | NaN \<Rightarrow> True"
    unfolding s by (cases "max_step sv") simp_all
next
  show "1 \<le> growth_factor en0 ex" "growth_factor en0 ex \<le> MAX_FACTOR"
    using growth_factor_bounds[of en0 ex] by simp_all
next
  assume a: "ord \<noteq> 0 \<and> 0 \<le> h0"
  define g where "g = growth_factor en0 (- 1 / real_of_int ord)"
  have g: "1 \<le> g" "g \<le> MAX_FACTOR" unfolding g_def using growth_factor_bounds by simp_all
  have "grow_step_size h0 en0 ord = Inr (h0 * g)"
    using a by (simp add: grow_step_size_def neg_inv_order_def g_def)
  moreover have "h0 \<le> h0 * g" using a g(1) by (simp add: mult_le_cancel_left1)
  moreover have "h0 * g \<le> h0 * MAX_FACTOR" using a g(2) by (simp add: mult_left_mono)
  ultimately show "\<exists>h3. grow_step_size h0 en0 ord = Inr h3 \<and> h0 \<le> h3 \<and> h3 \<le> h0 * MAX_FACTOR"
    by blast
next
  assume b: "clamp_trial (state_t (state sv)) (t_crit sv) (direction sv) d h_abs = (h1, t_new, h) \<and>
    rk_step (fun_rhs sv) (state_t (state sv)) (state_y (state sv)) (state_f (state sv)) h
      (coef_A sv) (coef_B sv) (coef_C sv) (coef_E sv) K = Inr (y_new, f_new, err, K1, cs1) \<and>
    scaled_error_norm (atol sv) (rtol sv) (state_y (state sv)) y_new err = Inr en \<and>
    xgt en 1 \<and> 0 < order sv \<and> 0 \<le> d \<and> 0 \<le> h_abs"
  then have cl: "clamp_trial (state_t (state sv)) (t_crit sv) (direction sv) d h_abs =
      (h1, t_new, h)"
    and rk: "rk_step (fun_rhs sv) (state_t (state sv)) (state_y (state sv)) (state_f (state sv)) h
      (coef_A sv) (coef_B sv) (coef_C sv) (coef_E sv) K = Inr (y_new, f_new, err, K1, cs1)"
    and sn: "scaled_error_norm (atol sv) (rtol sv) (state_y (state sv)) y_new err = Inr en"
    and gt: "xgt en 1" and ord: "0 < order sv" and d: "0 \<le> d" and h0: "0 \<le> h_abs"
    by simp_all
  have m: "h1 = min h_abs d" using cl by (rule clamp_trial_min)
  then have h1: "0 \<le> h1" using d h0 by simp
  from shrink_step_size_bounds[OF gt ord, of h1] obtain c where
    c: "shrink_step_size h1 en (order sv) = Inr (h1 * c)" "MIN_FACTOR \<le> c" "c < 1" by blast
  have l: "step_loop sv d h_abs K cs = step_loop sv d (h1 * c) K1 (cs @ cs1)"
    by (rule step_loop_rejects[OF cl rk sn gt c(1)])
  have "h1 * MIN_FACTOR \<le> h1 * c" using h1 c(2) by (rule mult_left_mono[rotated])
  moreover have "h1 * c \<le> h1" using h1 c(3) by (simp add: mult_left_le)
  ultimately show "\<exists>h2. shrink_step_size h1 en (order sv) = Inr h2 \<and>
         step_loop sv d h_abs K cs = step_loop sv d h2 K1 (cs @ cs1) \<and>
         h1 = min h_abs d \<and> min h_abs d * MIN_FACTOR \<le> h2 \<and> h2 \<le> min h_abs d"
    using c(1) l m by (intro exI[of _ "h1 * c"]) simp
qed

theorem step_size_bounds_of_trial_witness:
  "((status near_solver = Running \<or> status near_solver = Started) \<and>
    step near_solver = Some (Inr (near_solver_after, near_calls)) \<and>
    0 < order near_solver \<and> 0 \<le> step_size near_solver) \<and>
   step_size near_solver_after \<le> step_size near_solver * MAX_FACTOR \<and>
   ((status capped_solver = Running \<or> status capped_solver = Started) \<and>
    step capped_solver = Some (Inr (capped_solver_after, capped_calls)) \<and>
    0 < order capped_solver \<and> 0 \<le> step_size capped_solver) \<and>
   step_size capped_solver_after \<le> step_size capped_solver * MAX_FACTOR \<and>
   max_step capped_solver = Fin (1 / 2) \<and> step_size capped_solver_after \<le> 1 / 2 \<and>
   1 \<le> growth_factor (Fin 0) (- 1 / 5) \<and> growth_factor (Fin 0) (- 1 / 5) \<le> MAX_FACTOR \<and>
   ((5 :: int) \<noteq> 0 \<and> (0 :: real) \<le> 3 / 20) \<and>
   (\<exists>h3. grow_step_size (3 / 20) (Fin 0) 5 = Inr h3 \<and> 3 / 20 \<le> h3 \<and>
      h3 \<le> 3 / 20 * MAX_FACTOR) \<and>
   (xgt (Fin (85965948000 / 13491101)) 1 \<and> 0 < order near_solver \<and>
    0 \<le> \<bar>t_crit near_solver - state_t (state near_solver)\<bar> \<and> 0 \<le> step_size near_solver) \<and>
   (\<exists>h2. shrink_step_size (3 / 4) (Fin (85965948000 / 13491101)) (order near_solver) = Inr h2 \<and>
      step_loop near_solver \<bar>t_crit near_solver - state_t (state near_solver)\<bar>
        (step_size near_solver) (stage_K near_solver) [] =
        step_loop near_solver \<bar>t_crit near_solver - state_t (state near_solver)\<bar> h2
          [[1], [1], [1], [1000], [1000], [1000], [1000]] ([] @ take 6 near_calls) \<and>
      3 / 4 = min (step_size near_solver) \<bar>t_crit near_solver - state_t (state near_solver)\<bar> \<and>
      min (step_size near_solver) \<bar>t_crit near_solver - state_t (state near_solver)\<bar> *
        MIN_FACTOR \<le> h2 \<and>
      h2 \<le> min (step_size near_solver) \<bar>t_crit near_solver - state_t (state near_solver)\<bar>)"
proof -
  have o: "0 < order near_solver" "0 \<le> step_size near_solver"
    "0 \<le> \<bar>t_crit near_solver - state_t (state near_solver)\<bar>"
    by (simp_all add: near_solver_def jump_solver_def)
  have p: "0 < order capped_solver" "0 \<le> step_size capped_solver"
    "max_step capped_solver = Fin (1 / 2)"
    by (simp_all add: capped_solver_def jump_solver_def)
  have q: "(5 :: int) \<noteq> 0" "(0 :: real) \<le> 3 / 20" by simp_all
  note t1 = step_size_bounds_of_trial[where sv = near_solver and sv' = near_solver_after
      and calls = near_calls and ?en0.0 = "Fin 0" and ex = "- 1 / 5" and ord = 5
      and ?h0.0 = "3 / 20"
      and d = "\<bar>t_crit near_solver - state_t (state near_solver)\<bar>"
      and h_abs = "step_size near_solver" and ?h1.0 = "3 / 4" and t_new = "3 / 4"
      and h = "3 / 4" and K = "stage_K near_solver" and y_new = "[65555985 / 189952]"
      and f_new = "[1000]" and err = "[- 21491487 / 9497600]"
      and ?K1.0 = "[[1], [1], [1], [1000], [1000], [1000], [1000]]"
      and ?cs1.0 = "take 6 near_calls" and en = "Fin (85965948000 / 13491101)" and cs = "[]"]
  note t2 = step_size_bounds_of_trial[where sv = capped_solver and sv' = capped_solver_after
      and calls = capped_calls, THEN conjunct1]
  from t2 capped_running capped_step p have
    c: "step_size capped_solver_after \<le> step_size capped_solver * MAX_FACTOR"
       "step_size capped_solver_after \<le> 1 / 2"
    by simp_all
  from t1 near_running near_step near_first_clamp near_first_rk near_first_norm near_above_1
    o q c p capped_running capped_step
  show ?thesis by blast
qed

theorem rejection_below_MIN_FACTOR_counterexample:
  "status near_solver = Started \<and> step_size near_solver = 1 \<and>
   clamp_trial (state_t (state near_solver)) (t_crit near_solver) (direction near_solver)
      \<bar>t_crit near_solver - state_t (state near_solver)\<bar> (step_size near_solver) =
     (3 / 4, 3 / 4, 3 / 4) \<and>
   rk_step (fun_rhs near_solver) (state_t (state near_solver)) (state_y (state near_solver))
      (state_f (state near_solver)) (3 / 4) (coef_A near_solver) (coef_B near_solver)
      (coef_C near_solver) (coef_E near_solver) (stage_K near_solver) =
     Inr ([65555985 / 189952], [1000], [- 21491487 / 9497600],
          [[1], [1], [1], [1000], [1000], [1000], [1000]], take 6 near_calls) \<and>
   scaled_error_norm (atol near_solver) (rtol near_solver) (state_y (state near_solver))
      [65555985 / 189952] [- 21491487 / 9497600] = Inr (Fin (85965948000 / 13491101)) \<and>
   xgt (Fin (85965948000 / 13491101)) 1 \<and>
   shrink_step_size (3 / 4) (Fin (85965948000 / 13491101)) (order near_solver) =
     Inr (3 / 20) \<and>
   step_loop near_solver \<bar>t_crit near_solver - state_t (state near_solver)\<bar>
      (step_size near_solver) (stage_K near_solver) [] = Some (Inr near_trial) \<and>
   trial_calls near_trial = butlast near_calls \<and>
   trial_h_abs near_trial = 3 / 20 \<and>
   step near_solver = Some (Inr (near_solver_after, near_calls)) \<and>
   \<not> step_size near_solver * MIN_FACTOR \<le> trial_h_abs near_trial"
  using near_first_clamp near_first_rk near_first_norm near_above_1 near_shrink
    near_trial_loop near_step
  by (simp add: near_solver_def jump_solver_def near_trial_def MIN_FACTOR_def)

text \<open>
  Claim C6. When the error norm of the accepted trial is exactly 0 (and the order is positive)
  the growth computation raises nothing and multiplies the step size by exactly
  \<open>MAX_FACTOR\<close>, before the clamp to \<open>max_step\<close>: the infinite power is absorbed by the
  \<open>min\<close>.
\<close>

theorem zero_norm_grows_by_MAX_FACTOR:
  "(0 < ord \<longrightarrow> grow_step_size h_abs (Fin 0) ord = Inr (h_abs * MAX_FACTOR)) \<and>
   ((status sv = Running \<or> status sv = Started) \<and> 0 < order sv \<and>
    step_loop sv \<bar>t_crit sv - state_t (state sv)\<bar> (step_size sv) (stage_K sv) [] =
      Some (Inr tr) \<and>
    trial_error_norm tr = Fin 0 \<and> step sv = Some (Inr (sv', calls)) \<longrightarrow>
      step_size sv' = xmin (trial_h_abs tr * MAX_FACTOR) (max_step sv))"
proof (intro conjI impI)
  assume "0 < ord"
  then show "grow_step_size h_abs (Fin 0) ord = Inr (h_abs * MAX_FACTOR)"
    by (simp add: grow_step_size_def neg_inv_order_def growth_factor_def np_power_def
        times_SAFETY_def SAFETY_def MAX_FACTOR_def)
next
  assume a: "(status sv = Running \<or> status sv = Started) \<and> 0 < order sv \<and>
    step_loop sv \<bar>t_crit sv - state_t (state sv)\<bar> (step_size sv) (stage_K sv) [] =
      Some (Inr tr) \<and>
    trial_error_norm tr = Fin 0 \<and> step sv = Some (Inr (sv', calls))"
  then have "grow_step_size (trial_h_abs tr) (trial_error_norm tr) (order sv) =
      Inr (trial_h_abs tr * MAX_FACTOR)"
    by (simp add: grow_step_size_def neg_inv_order_def growth_factor_def np_power_def
        times_SAFETY_def SAFETY_def MAX_FACTOR_def)
  with a show "step_size sv' = xmin (trial_h_abs tr * MAX_FACTOR) (max_step sv)"
    by (auto simp: step_def split: sum.splits)
qed

theorem zero_norm_grows_by_MAX_FACTOR_witness:
  "(0 :: int) < 5 \<and> grow_step_size (1 / 5) (Fin 0) 5 = Inr (1 / 5 * MAX_FACTOR) \<and>
   ((status jump_solver = Running \<or> status jump_solver = Started) \<and> 0 < order jump_solver \<and>
    step_loop jump_solver \<bar>t_crit jump_solver - state_t (state jump_solver)\<bar>
      (step_size jump_solver) (stage_K jump_solver) [] = Some (Inr jump_trial) \<and>
    trial_error_norm jump_trial = Fin 0 \<and>
    step jump_solver = Some (Inr (jump_solver_after, jump_calls))) \<and>
   step_size jump_solver_after = xmin (trial_h_abs jump_trial * MAX_FACTOR) (max_step jump_solver)"
proof -
  have o: "0 < order jump_solver" "trial_error_norm jump_trial = Fin 0" "(0 :: int) < 5"
    by (simp_all add: jump_solver_def jump_trial_def)
  note t = zero_norm_grows_by_MAX_FACTOR[where ord = 5 and h_abs = "1 / 5" and sv = jump_solver
      and tr = jump_trial and sv' = jump_solver_after and calls = jump_calls]
  from t jump_running jump_step jump_trial_loop o show ?thesis by blast
qed





text \<open>
  Claim C9. Called with a status that is neither \<open>Started\<close> nor \<open>Running\<close>,
  \<^verbatim>\<open>step\<close> returns at once: the solver (state, step size, status, stage buffer) is unchanged
  and the right-hand side is not called.
\<close>

theorem step_noop_when_not_running:
  "status sv \<noteq> Started \<and> status sv \<noteq> Running \<longrightarrow> step sv = Some (Inr (sv, []))"
  by (simp add: step_def)

theorem step_noop_when_not_running_witness:
  "(status (jump_solver\<lparr>status := Finished\<rparr>) \<noteq> Started \<and>
    status (jump_solver\<lparr>status := Finished\<rparr>) \<noteq> Running) \<and>
   step (jump_solver\<lparr>status := Finished\<rparr>) = Some (Inr (jump_solver\<lparr>status := Finished\<rparr>, []))"
  using step_noop_when_not_running[of "jump_solver\<lparr>status := Finished\<rparr>"] by simp

text \<open>
  Claim C10. With a midpoint set \<open>M\<close>, the midpoint value of the emitted state is
  \<open>y + 0.5 * h * dot(K.T, M)\<close>, where \<open>h\<close> is the signed step of the accepted trial and
  \<open>K\<close>, all its \<open>n_stages + 1\<close> rows, is the buffer as the accepted \<^verbatim>\<open>rk_step\<close> call left
  it. That buffer is the same whatever the buffer held before the call, so the stages of
  rejected trials do not reach \<open>ym\<close>.
\<close>

theorem midpoint_of_accepted_trial:
  assumes run: "status sv = Running \<or> status sv = Started"
    and stp: "step sv = Some (Inr (sv', calls))"
    and M: "coef_M sv = Some m" and ok: "solver_ok n sv"
  shows "\<exists>h. (state_t (state sv') = t_crit sv \<or> state_t (state sv') = state_t (state sv) + h) \<and>
    state_ym (state sv') =
      Some (vadd (state_y (state sv)) (smul (0.5 * h) (dotT n (stage_K sv') m))) \<and>
    length (stage_K sv') = length (coef_B sv) + 1 \<and>
    (\<forall>K0. buffer_ok (length (coef_B sv) + 1) n K0 \<longrightarrow>
      (\<exists>f_new err cs.
         rk_step (fun_rhs sv) (state_t (state sv)) (state_y (state sv)) (state_f (state sv)) h
           (coef_A sv) (coef_B sv) (coef_C sv) (coef_E sv) K0 =
           Inr (state_y (state sv'), f_new, err, stage_K sv', cs)))"
proof -
  from ok have tab: "tableau_ok (coef_A sv) (coef_B sv) (coef_C sv) (coef_E sv)"
    and ly: "length (state_y (state sv)) = n" and lf: "length (state_f (state sv)) = n"
    and fn: "rhs_ok n (fun_rhs sv)"
    by (simp_all add: solver_ok_def)
  from step_runD[OF run stp] obtain tr h_abs ym where
    loop: "step_loop sv \<bar>t_crit sv - state_t (state sv)\<bar> (step_size sv) (stage_K sv) [] =
        Some (Inr tr)"
    and mp: "midpoint (coef_M sv) (state_y (state sv)) (trial_h tr) (trial_K tr) = Inr ym"
    and sv': "sv' = sv\<lparr>state := \<lparr>state_t = trial_t_new tr, state_y = trial_y_new tr,
                         state_f = fun_rhs sv (trial_t_new tr) (trial_y_new tr),
                         state_ym = ym\<rparr>,
               stage_K := trial_K tr,
               step_size := xmin h_abs (max_step sv),
               status := new_status (trial_t_new tr) (t_crit sv) (state_t (state sv))\<rparr>"
    by blast
  from trial_okI[OF loop] obtain h0 K1 err cs1 where
    cl: "clamp_trial (state_t (state sv)) (t_crit sv) (direction sv)
       \<bar>t_crit sv - state_t (state sv)\<bar> h0 = (trial_h_abs tr, trial_t_new tr, trial_h tr)"
    and rk: "rk_step (fun_rhs sv) (state_t (state sv)) (state_y (state sv)) (state_f (state sv))
          (trial_h tr) (coef_A sv) (coef_B sv) (coef_C sv) (coef_E sv) K1 =
          Inr (trial_y_new tr, trial_f_new tr, err, trial_K tr, cs1)"
    unfolding trial_ok_def by blast
  from rk_step_shape[OF rk] lf have lK1: "length K1 = length (coef_B sv) + 1"
    and nK1: "ncols K1 = n" by simp_all
  from rk_step_char[OF tab lK1 nK1 ly lf fn, of "state_t (state sv)" "trial_h tr"] rk
  have lK: "length (trial_K tr) = length (coef_B sv) + 1" and nK: "ncols (trial_K tr) = n"
    by auto
  have t: "trial_t_new tr = t_crit sv \<or> trial_t_new tr = state_t (state sv) + trial_h tr"
    using cl by (auto simp: clamp_trial_def split: if_splits)
  have y: "ym = Some (vadd (state_y (state sv)) (smul (0.5 * trial_h tr) (dotT n (trial_K tr) m)))"
    using mp M nK by (auto simp: midpoint_def split: if_splits)
  have ind: "\<forall>K0. buffer_ok (length (coef_B sv) + 1) n K0 \<longrightarrow>
      (\<exists>f_new err cs.
         rk_step (fun_rhs sv) (state_t (state sv)) (state_y (state sv)) (state_f (state sv))
           (trial_h tr) (coef_A sv) (coef_B sv) (coef_C sv) (coef_E sv) K0 =
           Inr (trial_y_new tr, f_new, err, trial_K tr, cs))"
  proof (intro allI impI)
    fix K0 assume b: "buffer_ok (length (coef_B sv) + 1) n K0"
    then have "length K0 = length (coef_B sv) + 1" "ncols K0 = n"
      by (simp_all add: buffer_ok_def buffer_ok_ncols)
    from rk_step_indep[OF tab fn ly lf rk this] show "\<exists>f_new err cs.
         rk_step (fun_rhs sv) (state_t (state sv)) (state_y (state sv)) (state_f (state sv))
           (trial_h tr) (coef_A sv) (coef_B sv) (coef_C sv) (coef_E sv) K0 =
           Inr (trial_y_new tr, f_new, err, trial_K tr, cs)" by blast
  qed
  show ?thesis
    by (rule exI[of _ "trial_h tr"]) (use t y lK ind in \<open>simp add: sv'\<close>)
qed

theorem midpoint_of_accepted_trial_witness:
  "((status jump_solver = Running \<or> status jump_solver = Started) \<and>
    step jump_solver = Some (Inr (jump_solver_after, jump_calls)) \<and>
    coef_M jump_solver = Some M45 \<and> solver_ok 1 jump_solver) \<and>
   (\<exists>h. (state_t (state jump_solver_after) = t_crit jump_solver \<or>
         state_t (state jump_solver_after) = state_t (state jump_solver) + h) \<and>
    state_ym (state jump_solver_after) =
      Some (vadd (state_y (state jump_solver))
             (smul (0.5 * h) (dotT 1 (stage_K jump_solver_after) M45))) \<and>
    length (stage_K jump_solver_after) = length (coef_B jump_solver) + 1 \<and>
    (\<forall>K0. buffer_ok (length (coef_B jump_solver) + 1) 1 K0 \<longrightarrow>
      (\<exists>f_new err cs.
         rk_step (fun_rhs jump_solver) (state_t (state jump_solver))
           (state_y (state jump_solver)) (state_f (state jump_solver)) h
           (coef_A jump_solver) (coef_B jump_solver) (coef_C jump_solver)
           (coef_E jump_solver) K0 =
           Inr (state_y (state jump_solver_after), f_new, err, stage_K jump_solver_after, cs))))"
proof -
  have M: "coef_M jump_solver = Some M45" by (simp add: jump_solver_def)
  from midpoint_of_accepted_trial[OF jump_running jump_step M jump_solver_ok]
    jump_running jump_step M jump_solver_ok
  show ?thesis by blast
qed

section \<open>Properties of the dense output\<close>





lemma poly_hf_has_derivative:
  "((\<lambda>x. poly_hf cs x) has_real_derivative dpoly_hf cs x) (at x)"
proof (induction cs)
  case Nil
  show ?case by simp
next
  case (Cons a cs)
  show ?case
    by (auto intro!: derivative_eq_intros Cons.IH)
qed









lemma jump_states_eq:
  "jump_states =
     [\<lparr>state_t = 0, state_y = [0], state_f = [1], state_ym = None\<rparr>,
      \<lparr>state_t = 1 / 5, state_y = [1 / 5], state_f = [1], state_ym = Some [1 / 10]\<rparr>]"
  by (simp add: jump_states_def jump_solver_def jump_solver_after_def)



lemma spline_None_rect:
  assumes "2 \<le> length states" and "rectangular n states"
  shows "spline None states =
    Inr (if state_t (last states) < state_t (hd states)
         then ppoly_of (rev (map state_t states)) (rev (map state_y states))
                (rev (map state_f states)) None
         else ppoly_of (map state_t states) (map state_y states) (map state_f states) None)"
proof -
  from assms(1) have ne: "states \<noteq> []" and l1: "length states \<noteq> 1" by auto
  then have "hd states \<in> set states" by simp
  with assms(2) have n: "length (state_y (hd states)) = n" by (simp add: rectangular_def)
  have g: "\<not> (\<exists>s\<in>set states. length (state_y s) \<noteq> n \<or> length (state_f s) \<noteq> n)"
    using assms(2) by (simp add: rectangular_def)
  show ?thesis
    unfolding spline_def Let_def n using ne l1 g by (simp add: hd_map last_map)
qed

lemma spline_None_not_rect:
  assumes "2 \<le> length states" and "\<forall>n. \<not> rectangular n states"
  shows "spline None states = Inl ShapeMismatch"
proof -
  from assms(1) have ne: "states \<noteq> []" and l1: "length states \<noteq> 1" by auto
  from assms(2) have "\<not> rectangular (length (state_y (hd states))) states" by simp
  then have "\<exists>s\<in>set states. length (state_y s) \<noteq> length (state_y (hd states)) \<or>
      length (state_f s) \<noteq> length (state_y (hd states))"
    by (auto simp: rectangular_def)
  then show ?thesis unfolding spline_def Let_def using ne l1 by simp
qed

lemma rectangular_rev: "rectangular n (rev states) = rectangular n states"
  by (simp add: rectangular_def)

lemmas spline_eval = spline_def ppoly_of_def quartic_coeffs_def cubic_coeffs_def Let_def
  madd_def msub_def mscale_def mdiv_col_def diff_def vadd_def vsub_def smul_def

text \<open>
  Claim C4, amended. Without a midpoint set (\<^verbatim>\<open>M\<close> is \<^verbatim>\<open>None\<close>, the cubic), and for states whose
  first and last times differ, the interpolant built from the reversed list of states is the
  one built from the list itself. With a midpoint set the midpoint
  values are read from \<^verbatim>\<open>states[1:]\<close> in the order given, and the reversed list is paired
  with the wrong ones, or with none.
\<close>

theorem spline_reversed_without_midpoint:
  assumes "state_t (hd states) \<noteq> state_t (last states)"
  shows "spline None (rev states) = spline None states"
proof (cases "length states \<le> 1")
  case True
  then show ?thesis by (cases states) simp_all
next
  case False
  then have l2: "2 \<le> length states" "2 \<le> length (rev states)" and ne: "states \<noteq> []" by auto
  show ?thesis
  proof (cases "\<exists>n. rectangular n states")
    case False
    then have "\<forall>n. \<not> rectangular n states" "\<forall>n. \<not> rectangular n (rev states)"
      by (simp_all add: rectangular_rev)
    then show ?thesis
      using spline_None_not_rect[OF l2(1)] spline_None_not_rect[OF l2(2)] by simp
  next
    case True
    then obtain n where r: "rectangular n states" "rectangular n (rev states)"
      by (auto simp: rectangular_rev)
    have hl: "hd (rev states) = last states" "last (rev states) = hd states"
      using ne by (simp_all add: hd_rev last_rev)
    show ?thesis
    proof (cases "state_t (last states) < state_t (hd states)")
      case True
      then show ?thesis
        unfolding spline_None_rect[OF l2(1) r(1)] spline_None_rect[OF l2(2) r(2)] hl
        by (simp add: rev_map)
    next
      case False
      with assms have "state_t (hd states) < state_t (last states)" by simp
      then show ?thesis
        unfolding spline_None_rect[OF l2(1) r(1)] spline_None_rect[OF l2(2) r(2)] hl
        by (simp add: rev_map)
    qed
  qed
qed

theorem spline_reversed_without_midpoint_witness:
  "state_t (hd jump_states) \<noteq> state_t (last jump_states) \<and>
   spline None (rev jump_states) = spline None jump_states"
proof -
  have a: "state_t (hd jump_states) \<noteq> state_t (last jump_states)"
    by (simp add: jump_states_eq)
  from spline_reversed_without_midpoint[OF a] a show ?thesis by blast
qed

theorem spline_reversed_with_midpoint_counterexample:
  "spline (Some M45) (rev jump_states) \<noteq> spline (Some M45) jump_states \<and>
   spline (Some M45) (rev [state jump_solver_after, jump_third_state]) \<noteq>
     spline (Some M45) [state jump_solver_after, jump_third_state]"
proof
  have "spline (Some M45) (rev jump_states) = Inl TypeError"
    by (simp add: jump_states_eq spline_def)
  moreover have "spline (Some M45) jump_states \<noteq> Inl TypeError"
    by (simp add: jump_states_eq spline_def Let_def)
  ultimately show "spline (Some M45) (rev jump_states) \<noteq> spline (Some M45) jump_states"
    by simp
next
  show "spline (Some M45) (rev [state jump_solver_after, jump_third_state]) \<noteq>
     spline (Some M45) [state jump_solver_after, jump_third_state]"
    by (simp add: jump_solver_after_def jump_solver_def jump_third_state_def spline_eval)
qed

end
